theory Spec2Isabelle
  imports Complex_Main
begin

section \<open>The book interaction state machine of \<^verbatim>\<open>src/book/book.ts\<close>\<close>

text \<open>
  The class \<^verbatim>\<open>Book\<close> is embedded as a record of its mutable state and one function per
  method. Conventions of the embedding:

  \<^item> A TypeScript \<^verbatim>\<open>number\<close> that serves as a spread index or as a direction is a
    \<open>jsnum\<close>: a real, \<^verbatim>\<open>NaN\<close>, or one of the two infinities, with the addition,
    comparisons, \<^verbatim>\<open>Math.min\<close> and \<^verbatim>\<open>Math.max\<close> of JavaScript. Rounding and the sign of
    zero are not modelled.
  \<^item> Times, durations and angles are reals. A division \<^verbatim>\<open>x / d\<close> of the source is the
    division of the reals, which agrees with the source for every \<open>d \<noteq> 0\<close>; for a
    duration of 0 the source computes an infinity or \<^verbatim>\<open>NaN\<close> where the reals give 0.
  \<^item> \<^verbatim>\<open>performance.now() / 1000\<close> is the parameter \<open>now\<close> of the method that reads it;
    the two readings inside one \<^verbatim>\<open>update\<close> call are taken to be the same instant.
  \<^item> Scene objects are shared and mutated through references (\<^verbatim>\<open>flip.hidden\<close>,
    \<^verbatim>\<open>flip.other\<close>, \<^verbatim>\<open>flip.under\<close>, \<^verbatim>\<open>flip.pivot\<close> alias the static meshes and pivots):
    the state holds one store per mutable attribute, indexed by the reference.
  \<^item> An exception is a value: a method that can throw returns
    \<open>(js_error \<times> book) + book\<close>, where \<open>Inl\<close> carries the state the object is left in
    when the exception propagates.
  \<^item> The body of an accepted \<^verbatim>\<open>flipPage\<close> is a list of statements in program order,
    run one after the other; the states between the statements are part of the model.
  \<^item> The book is constructed without the optional fourth argument \<^verbatim>\<open>callbacks\<close>, as the
    application constructs it (\<^verbatim>\<open>new Book(renderer, camera, bookConfig)\<close>), so every
    \<^verbatim>\<open>this.callbacks?.on...?.(...)\<close> does nothing.
  \<^item> Geometry, dimensions, materials of the covers and the \<^verbatim>\<open>needsUpdate\<close> flags of the
    renderer take no part in the state machine and are left out.
\<close>

subsection \<open>Numbers\<close>

datatype jsnum = Number real | NaN | PosInfinity | NegInfinity

fun js_add :: "jsnum \<Rightarrow> jsnum \<Rightarrow> jsnum" where
  "js_add (Number a) (Number b) = Number (a + b)"
| "js_add NaN _ = NaN"
| "js_add _ NaN = NaN"
| "js_add PosInfinity NegInfinity = NaN"
| "js_add NegInfinity PosInfinity = NaN"
| "js_add PosInfinity _ = PosInfinity"
| "js_add _ PosInfinity = PosInfinity"
| "js_add NegInfinity _ = NegInfinity"
| "js_add _ NegInfinity = NegInfinity"

text \<open>\<^verbatim>\<open>a < b\<close> and \<^verbatim>\<open>a >= b\<close>: both are false when an operand is \<^verbatim>\<open>NaN\<close>.\<close>

fun js_lt :: "jsnum \<Rightarrow> jsnum \<Rightarrow> bool" where
  "js_lt (Number a) (Number b) = (a < b)"
| "js_lt NaN _ = False"
| "js_lt _ NaN = False"
| "js_lt _ NegInfinity = False"
| "js_lt NegInfinity _ = True"
| "js_lt PosInfinity _ = False"
| "js_lt _ PosInfinity = True"

fun js_ge :: "jsnum \<Rightarrow> jsnum \<Rightarrow> bool" where
  "js_ge (Number a) (Number b) = (a \<ge> b)"
| "js_ge NaN _ = False"
| "js_ge _ NaN = False"
| "js_ge _ NegInfinity = True"
| "js_ge NegInfinity _ = False"
| "js_ge PosInfinity _ = True"
| "js_ge _ PosInfinity = False"

text \<open>\<^verbatim>\<open>Math.min\<close> and \<^verbatim>\<open>Math.max\<close> of two numbers: \<^verbatim>\<open>NaN\<close> when an argument is.\<close>

fun js_min :: "jsnum \<Rightarrow> jsnum \<Rightarrow> jsnum" where
  "js_min (Number a) (Number b) = Number (min a b)"
| "js_min NaN _ = NaN"
| "js_min _ NaN = NaN"
| "js_min NegInfinity _ = NegInfinity"
| "js_min _ NegInfinity = NegInfinity"
| "js_min PosInfinity b = b"
| "js_min a PosInfinity = a"

fun js_max :: "jsnum \<Rightarrow> jsnum \<Rightarrow> jsnum" where
  "js_max (Number a) (Number b) = Number (max a b)"
| "js_max NaN _ = NaN"
| "js_max _ NaN = NaN"
| "js_max PosInfinity _ = PosInfinity"
| "js_max _ PosInfinity = PosInfinity"
| "js_max NegInfinity b = b"
| "js_max a NegInfinity = a"

text \<open>\<^verbatim>\<open>THREE.MathUtils.clamp(value, min, max) = Math.max(min, Math.min(max, value))\<close>.\<close>

definition clamp :: "jsnum \<Rightarrow> jsnum \<Rightarrow> jsnum \<Rightarrow> jsnum" where
  "clamp v lo hi = js_max lo (js_min hi v)"

text \<open>\<^verbatim>\<open>THREE.MathUtils.lerp(x, y, t) = (1 - t) * x + t * y\<close>.\<close>

definition lerp :: "real \<Rightarrow> real \<Rightarrow> real \<Rightarrow> real" where
  "lerp x y t = (1 - t) * x + t * y"

definition easeInOut :: "real \<Rightarrow> real" where
  "easeInOut x = (if x < 1 / 2 then 4 * x * x * x else 1 - (- 2 * x + 2) ^ 3 / 2)"

text \<open>A number that addresses an element of the array: an integer inside it.\<close>

definition is_index :: "'a list \<Rightarrow> jsnum \<Rightarrow> bool" where
  "is_index xs i \<longleftrightarrow>
     (case i of
        Number x \<Rightarrow> x = of_int \<lfloor>x\<rfloor> \<and> 0 \<le> x \<and> x < real (length xs)
      | _ \<Rightarrow> False)"

text \<open>
  \<^verbatim>\<open>xs[i]\<close>: the element when \<open>i\<close> is an integer inside the array, \<^verbatim>\<open>undefined\<close>
  (\<open>None\<close>) for every other number.
\<close>

definition element_at :: "'a list \<Rightarrow> jsnum \<Rightarrow> 'a option" where
  "element_at xs i =
     (case i of
        Number x \<Rightarrow> if is_index xs i then Some (xs ! nat \<lfloor>x\<rfloor>) else None
      | _ \<Rightarrow> None)"

fun show_nat :: "nat \<Rightarrow> string" where
  "show_nat n =
     (if n < 10 then [''0123456789'' ! n]
      else show_nat (n div 10) @ [''0123456789'' ! (n mod 10)])"

text \<open>
  The text of a number inside a template string. The finite numbers printed by the
  book are non-negative integers (an index that has just addressed a spread, or that
  index plus one).
\<close>

definition show_num :: "jsnum \<Rightarrow> string" where
  "show_num v =
     (case v of
        Number x \<Rightarrow> show_nat (nat \<lfloor>x\<rfloor>)
      | NaN \<Rightarrow> ''NaN''
      | PosInfinity \<Rightarrow> ''Infinity''
      | NegInfinity \<Rightarrow> ''-Infinity'')"

definition leftOpenRot :: real where "leftOpenRot = 0"
definition rightOpenRot :: real where "rightOpenRot = 0"
definition leftClosedRot :: real where "leftClosedRot = pi / 2"
definition rightClosedRot :: real where "rightClosedRot = - pi / 2"
definition zEps :: real where "zEps = 12 / 10000"

subsection \<open>Data\<close>

text \<open>
  A texture handle is an object identity. \<open>Texture n\<close> is a handle supplied by the
  caller; \<open>FlippedClone n t\<close> is the \<open>n\<close>-th object made by \<^verbatim>\<open>cloneFlipX\<close>: a clone of \<open>t\<close>
  with \<^verbatim>\<open>repeat = (-1, 1)\<close> and \<^verbatim>\<open>offset = (1, 0)\<close>.
\<close>

datatype texture = Texture nat | FlippedClone nat texture

text \<open>A spread as it arrives at run time: either handle may be missing.\<close>

record spread =
  left :: "texture option"
  right :: "texture option"

datatype js_error = ConfigError string | TypeError

datatype mesh_ref = LeftPage | RightPage | UnderLeft | UnderRight

datatype mat_ref = LeftMat | RightMat | UnderMatL | UnderMatR

datatype group_ref = PivotL | PivotR | LeftCoverPivot | RightCoverPivot | HalfL | HalfR

datatype geo_ref = GeoTurnR | GeoTurnL

datatype face = FrontSide | BackSide

text \<open>A transient turning surface, \<^verbatim>\<open>new THREE.Mesh(geo, new MeshStandardMaterial(..))\<close>.\<close>

record turn_mesh =
  tm_id :: nat
  tm_geo :: geo_ref
  tm_side :: face
  tm_map :: "texture option"
  tm_z :: real
  tm_renderOrder :: nat

record cover_state =
  c_open :: bool
  c_t0 :: real
  c_anim :: bool

record flip_state =
  active :: bool
  dir :: jsnum
  t0 :: real
  pivot :: "group_ref option"
  hidden :: "mesh_ref option"
  frontMesh :: "turn_mesh option"
  backMesh :: "turn_mesh option"
  under :: "mesh_ref option"
  other :: "mesh_ref option"
  otherWasVisible :: bool

record book =
  spreads :: "spread list"
  spreadIndex :: jsnum
  speed_cover :: real
  speed_flip :: real
  pageInfo :: "string option"
  flippedCache :: "string \<rightharpoonup> texture"
  clones :: nat
  meshes :: nat
  visible :: "mesh_ref \<Rightarrow> bool"
  matMap :: "mat_ref \<Rightarrow> texture option"
  rotY :: "group_ref \<Rightarrow> real"
  children :: "group_ref \<Rightarrow> turn_mesh list"
  cover :: cover_state
  flip :: flip_state

text \<open>
  The configuration as it arrives at run time. \<open>cfg_pageInfo\<close> is the text of the
  element found under \<^verbatim>\<open>pageInfoElementId\<close>, if there is one.
\<close>

record config =
  cfg_frontCoverTexture :: "texture option"
  cfg_backCoverTexture :: "texture option"
  cfg_spreads :: "spread list"
  cfg_speed_cover :: "real option"
  cfg_speed_flip :: "real option"
  cfg_initialSpreadIndex :: "jsnum option"
  cfg_pageInfo :: "string option"

subsection \<open>Statements\<close>

text \<open>
  A statement either completes with a new state or throws, leaving the state as it
  found it. \<open>exec\<close> runs statements in order and stops at the first that throws;
  \<open>states_after\<close> lists the state after each statement that completed.
\<close>

type_synonym stmt = "book \<Rightarrow> (js_error \<times> book) + book"

definition assign :: "(book \<Rightarrow> book) \<Rightarrow> stmt" where
  "assign f = (\<lambda>b. Inr (f b))"

fun exec :: "stmt list \<Rightarrow> book \<Rightarrow> (js_error \<times> book) + book" where
  "exec [] b = Inr b"
| "exec (s # ss) b = (case s b of Inl e \<Rightarrow> Inl e | Inr c \<Rightarrow> exec ss c)"

fun states_after :: "stmt list \<Rightarrow> book \<Rightarrow> book list" where
  "states_after [] b = []"
| "states_after (s # ss) b = (case s b of Inl e \<Rightarrow> [] | Inr c \<Rightarrow> c # states_after ss c)"

subsection \<open>Construction\<close>

text \<open>
  Lines 632-639. \<open>Some e\<close> is the error thrown. The list arrives as an array of spread
  objects, so \<^verbatim>\<open>Array.isArray\<close> holds; \<^verbatim>\<open>s.left && s.right\<close> asks for both handles.
\<close>

definition validateConfig :: "spread list \<Rightarrow> js_error option" where
  "validateConfig ss =
     (if length ss = 0 then Some (ConfigError ''spreads debe tener al menos 1 spread'')
      else if \<not> list_all (\<lambda>s. left s \<noteq> None \<and> right s \<noteq> None) ss
        then Some (ConfigError ''cada spread debe tener left y right'')
      else None)"

text \<open>
  Lines 641-657. The index is assigned before \<^verbatim>\<open>spread.left\<close> is read, so a throw leaves
  the clamped value in place. Line 656 notifies \<^verbatim>\<open>callbacks?.onSpreadChange\<close>, which is
  absent.
\<close>

definition setSpread :: "jsnum \<Rightarrow> book \<Rightarrow> (js_error \<times> book) + book" where
  "setSpread i b =
     (let b1 = b\<lparr>spreadIndex :=
                  clamp i (Number 0) (Number (real (length (spreads b)) - 1))\<rparr> in
      case element_at (spreads b1) (spreadIndex b1) of
        None \<Rightarrow> Inl (TypeError, b1)
      | Some sp \<Rightarrow>
          Inr (b1\<lparr>matMap := (matMap b1)(LeftMat := left sp, RightMat := right sp),
                  pageInfo :=
                    (case pageInfo b1 of
                       None \<Rightarrow> None
                     | Some _ \<Rightarrow>
                         Some (''Spread '' @ show_num (js_add (spreadIndex b1) (Number 1)) @
                               '' / '' @ show_nat (length (spreads b1))))\<rparr>))"

text \<open>The object as the field initialisers and the constructor body leave it before
  the final \<^verbatim>\<open>this.setSpread(this.spreadIndex)\<close>.\<close>

definition initial_book :: "config \<Rightarrow> book" where
  "initial_book cfg =
     \<lparr>spreads = cfg_spreads cfg,
      spreadIndex = (case cfg_initialSpreadIndex cfg of None \<Rightarrow> Number 0 | Some i \<Rightarrow> i),
      speed_cover = (case cfg_speed_cover cfg of None \<Rightarrow> 16 / 10 | Some v \<Rightarrow> v),
      speed_flip = (case cfg_speed_flip cfg of None \<Rightarrow> 12 / 10 | Some v \<Rightarrow> v),
      pageInfo = cfg_pageInfo cfg,
      flippedCache = Map.empty,
      clones = 0,
      meshes = 0,
      visible = (\<lambda>m. m = LeftPage \<or> m = RightPage),
      matMap = (\<lambda>_. None),
      rotY = (\<lambda>_. 0),
      children = (\<lambda>_. []),
      cover = \<lparr>c_open = True, c_t0 = 0, c_anim = False\<rparr>,
      flip = \<lparr>active = False, dir = Number 0, t0 = 0, pivot = None, hidden = None,
              frontMesh = None, backMesh = None, under = None, other = None,
              otherWasVisible = True\<rparr>\<rparr>"

text \<open>
  The constructor. Its statements that can throw, in order: \<^verbatim>\<open>validateConfig()\<close>
  (line 161), \<^verbatim>\<open>config.frontCoverTexture.clone()\<close> and
  \<^verbatim>\<open>config.backCoverTexture.clone()\<close> (lines 169-170, a \<^verbatim>\<open>TypeError\<close> when the handle is
  missing), and the final \<^verbatim>\<open>setSpread\<close> (line 420). No object exists when it throws.
\<close>

definition newBook :: "config \<Rightarrow> js_error + book" where
  "newBook cfg =
     (case validateConfig (cfg_spreads cfg) of
        Some e \<Rightarrow> Inl e
      | None \<Rightarrow>
          if cfg_frontCoverTexture cfg = None then Inl TypeError
          else if cfg_backCoverTexture cfg = None then Inl TypeError
          else
            (case setSpread (spreadIndex (initial_book cfg)) (initial_book cfg) of
               Inl (e, _) \<Rightarrow> Inl e
             | Inr b \<Rightarrow> Inr b))"

subsection \<open>Queries and the cover toggle\<close>

definition isCoverOpen :: "book \<Rightarrow> bool" where
  "isCoverOpen b = c_open (cover b)"

definition isFlipActive :: "book \<Rightarrow> bool" where
  "isFlipActive b = active (flip b)"

text \<open>Lines 451-457. Line 456 notifies \<^verbatim>\<open>callbacks?.onCoverToggle\<close>, which is absent.\<close>

definition toggleCover :: "real \<Rightarrow> book \<Rightarrow> book" where
  "toggleCover now b =
     (if active (flip b) \<or> c_anim (cover b) then b
      else b\<lparr>cover := (cover b)\<lparr>c_anim := True, c_t0 := now, c_open := \<not> c_open (cover b)\<rparr>\<rparr>)"

subsection \<open>The texture flip cache\<close>

definition cloneFlipX :: "texture \<Rightarrow> book \<Rightarrow> texture \<times> book" where
  "cloneFlipX tex b = (FlippedClone (clones b) tex, b\<lparr>clones := Suc (clones b)\<rparr>)"

text \<open>
  \<^verbatim>\<open>getFlippedTex(tex, cacheId)\<close>. On a miss \<^verbatim>\<open>tex.clone()\<close> dereferences the handle, which
  throws when the handle is missing.
\<close>

definition getFlippedTex ::
  "texture option \<Rightarrow> string \<Rightarrow> book \<Rightarrow> (js_error \<times> book) + (texture \<times> book)" where
  "getFlippedTex tex cacheId b =
     (case flippedCache b cacheId of
        Some t \<Rightarrow> Inr (t, b)
      | None \<Rightarrow>
          (case tex of
             None \<Rightarrow> Inl (TypeError, b)
           | Some src \<Rightarrow>
               (let (t, b1) = cloneFlipX src b
                in Inr (t, b1\<lparr>flippedCache := (flippedCache b1)(cacheId \<mapsto> t)\<rparr>))))"

subsection \<open>Starting a page turn\<close>

definition set_visible :: "mesh_ref \<Rightarrow> bool \<Rightarrow> book \<Rightarrow> book" where
  "set_visible m v b = b\<lparr>visible := (visible b)(m := v)\<rparr>"

text \<open>Lines 485-512 (529-556): the two transient surfaces, parented under the hinge.\<close>

definition turn_build ::
  "mat_ref \<Rightarrow> texture option \<Rightarrow> string \<Rightarrow> geo_ref \<Rightarrow> group_ref \<Rightarrow> book
     \<Rightarrow> (js_error \<times> book) + book" where
  "turn_build pageMat backTexSource cacheId geo piv b =
     (let frontTex = matMap b pageMat in
      case getFlippedTex backTexSource cacheId b of
        Inl e \<Rightarrow> Inl e
      | Inr (backTex, b1) \<Rightarrow>
          (let f = \<lparr>tm_id = meshes b1, tm_geo = geo, tm_side = FrontSide, tm_map = frontTex,
                    tm_z = zEps * 10, tm_renderOrder = 10\<rparr>;
               g = \<lparr>tm_id = Suc (meshes b1), tm_geo = geo, tm_side = BackSide,
                    tm_map = Some backTex, tm_z = zEps * 10, tm_renderOrder = 10\<rparr>
           in Inr (b1\<lparr>meshes := meshes b1 + 2,
                      flip := (flip b1)\<lparr>frontMesh := Some f, backMesh := Some g\<rparr>,
                      children := (children b1)(piv := children b1 piv @ [f, g])\<rparr>)))"

text \<open>
  The forward branch, lines 471-512, one entry per statement. The local
  \<^verbatim>\<open>nextSpread = this.spreads[nextIndex]\<close> (line 475) is read again where it is used (the
  array is never written); reading a field of \<^verbatim>\<open>undefined\<close> throws.
\<close>

definition forward_stmts :: "jsnum \<Rightarrow> stmt list" where
  "forward_stmts nextIndex =
     [assign (\<lambda>b. b\<lparr>flip := (flip b)\<lparr>other := Some LeftPage\<rparr>\<rparr>),
      assign (\<lambda>b. b\<lparr>flip := (flip b)\<lparr>otherWasVisible := visible b LeftPage\<rparr>\<rparr>),
      assign (set_visible UnderRight True),
      (\<lambda>b. case element_at (spreads b) nextIndex of
              None \<Rightarrow> Inl (TypeError, b)
            | Some nextSpread \<Rightarrow>
                Inr (b\<lparr>matMap := (matMap b)(UnderMatR := right nextSpread)\<rparr>)),
      assign (\<lambda>b. b\<lparr>flip := (flip b)\<lparr>under := Some UnderRight\<rparr>\<rparr>),
      assign (set_visible RightPage False),
      assign (\<lambda>b. b\<lparr>flip := (flip b)\<lparr>hidden := Some RightPage\<rparr>\<rparr>),
      assign (\<lambda>b. b\<lparr>flip := (flip b)\<lparr>pivot := Some PivotR\<rparr>\<rparr>),
      assign (\<lambda>b. b\<lparr>rotY := (rotY b)(PivotR := 0)\<rparr>),
      (\<lambda>b. case element_at (spreads b) nextIndex of
              None \<Rightarrow> Inl (TypeError, b)
            | Some nextSpread \<Rightarrow>
                turn_build RightMat (left nextSpread)
                  (''flip:'' @ show_num nextIndex @ '':left'') GeoTurnR PivotR b)]"

text \<open>The backward branch, lines 515-556.\<close>

definition backward_stmts :: "jsnum \<Rightarrow> stmt list" where
  "backward_stmts nextIndex =
     [assign (\<lambda>b. b\<lparr>flip := (flip b)\<lparr>other := Some RightPage\<rparr>\<rparr>),
      assign (\<lambda>b. b\<lparr>flip := (flip b)\<lparr>otherWasVisible := visible b RightPage\<rparr>\<rparr>),
      assign (set_visible UnderLeft True),
      (\<lambda>b. case element_at (spreads b) nextIndex of
              None \<Rightarrow> Inl (TypeError, b)
            | Some nextSpread \<Rightarrow>
                Inr (b\<lparr>matMap := (matMap b)(UnderMatL := left nextSpread)\<rparr>)),
      assign (\<lambda>b. b\<lparr>flip := (flip b)\<lparr>under := Some UnderLeft\<rparr>\<rparr>),
      assign (set_visible LeftPage False),
      assign (\<lambda>b. b\<lparr>flip := (flip b)\<lparr>hidden := Some LeftPage\<rparr>\<rparr>),
      assign (\<lambda>b. b\<lparr>flip := (flip b)\<lparr>pivot := Some PivotL\<rparr>\<rparr>),
      assign (\<lambda>b. b\<lparr>rotY := (rotY b)(PivotL := 0)\<rparr>),
      (\<lambda>b. case element_at (spreads b) nextIndex of
              None \<Rightarrow> Inl (TypeError, b)
            | Some nextSpread \<Rightarrow>
                turn_build LeftMat (right nextSpread)
                  (''flip:'' @ show_num nextIndex @ '':right'') GeoTurnL PivotL b)]"

text \<open>Lines 465-557: what an accepted \<^verbatim>\<open>flipPage(dir)\<close> executes.\<close>

definition flip_stmts :: "real \<Rightarrow> jsnum \<Rightarrow> jsnum \<Rightarrow> stmt list" where
  "flip_stmts now d nextIndex =
     assign (\<lambda>b. b\<lparr>flip := (flip b)\<lparr>active := True\<rparr>\<rparr>) #
     assign (\<lambda>b. b\<lparr>flip := (flip b)\<lparr>dir := d\<rparr>\<rparr>) #
     assign (\<lambda>b. b\<lparr>flip := (flip b)\<lparr>t0 := now\<rparr>\<rparr>) #
     (if d = Number 1 then forward_stmts nextIndex else backward_stmts nextIndex)"

definition flipPage :: "real \<Rightarrow> jsnum \<Rightarrow> book \<Rightarrow> (js_error \<times> book) + book" where
  "flipPage now d b =
     (if \<not> c_open (cover b) \<or> c_anim (cover b) then Inr b
      else if active (flip b) then Inr b
      else
        (let nextIndex = js_add (spreadIndex b) d in
         if js_lt nextIndex (Number 0) \<or>
            js_ge nextIndex (Number (real (length (spreads b))))
         then Inr b
         else exec (flip_stmts now d nextIndex) b))"

text \<open>
  The states the book passes through during the call, one after each statement that
  completed: none when the call is rejected.
\<close>

definition flipPage_states :: "real \<Rightarrow> jsnum \<Rightarrow> book \<Rightarrow> book list" where
  "flipPage_states now d b =
     (if \<not> c_open (cover b) \<or> c_anim (cover b) then []
      else if active (flip b) then []
      else
        (let nextIndex = js_add (spreadIndex b) d in
         if js_lt nextIndex (Number 0) \<or>
            js_ge nextIndex (Number (real (length (spreads b))))
         then []
         else states_after (flip_stmts now d nextIndex) b))"

subsection \<open>Finishing a page turn\<close>

text \<open>\<^verbatim>\<open>this.flip.pivot?.remove(mesh)\<close>.\<close>

definition detach :: "turn_mesh \<Rightarrow> book \<Rightarrow> book" where
  "detach m b =
     (case pivot (flip b) of
        None \<Rightarrow> b
      | Some p \<Rightarrow> b\<lparr>children := (children b)(p := remove1 m (children b p))\<rparr>)"

definition cleanupFlipMeshes :: "book \<Rightarrow> book" where
  "cleanupFlipMeshes b =
     (let b1 = (case frontMesh (flip b) of
                  None \<Rightarrow> b
                | Some f \<Rightarrow> (let c = detach f b in c\<lparr>flip := (flip c)\<lparr>frontMesh := None\<rparr>\<rparr>));
          b2 = (case backMesh (flip b1) of
                  None \<Rightarrow> b1
                | Some g \<Rightarrow> (let c = detach g b1 in c\<lparr>flip := (flip c)\<lparr>backMesh := None\<rparr>\<rparr>));
          b3 = (case under (flip b2) of
                  None \<Rightarrow> b2
                | Some m \<Rightarrow>
                    (let c = set_visible m False b2 in c\<lparr>flip := (flip c)\<lparr>under := None\<rparr>\<rparr>));
          b4 = (case other (flip b3) of
                  None \<Rightarrow> b3
                | Some m \<Rightarrow>
                    (let c = set_visible m (otherWasVisible (flip b3)) b3
                     in c\<lparr>flip := (flip c)\<lparr>other := None\<rparr>\<rparr>))
      in b4\<lparr>flip := (flip b4)\<lparr>otherWasVisible := True\<rparr>\<rparr>)"

text \<open>\<^verbatim>\<open>if (ref) ref.visible = v\<close>.\<close>

definition set_visible_opt :: "mesh_ref option \<Rightarrow> bool \<Rightarrow> book \<Rightarrow> book" where
  "set_visible_opt r v b = (case r of None \<Rightarrow> b | Some m \<Rightarrow> set_visible m v b)"

definition endFlip :: "book \<Rightarrow> (js_error \<times> book) + book" where
  "endFlip b =
     (let otherToRestore = other (flip b);
          b1 = set_visible_opt otherToRestore False b;
          toReveal = hidden (flip b1);
          b2 = set_visible_opt toReveal False b1;
          b3 = cleanupFlipMeshes b2
      in case setSpread (js_add (spreadIndex b3) (dir (flip b3))) b3 of
           Inl e \<Rightarrow> Inl e
         | Inr b4 \<Rightarrow>
             (let b5 = set_visible_opt toReveal True b4;
                  b6 = set_visible_opt otherToRestore True b5
              in Inr (b6\<lparr>flip := (flip b6)\<lparr>active := False, dir := Number 0, pivot := None,
                                           hidden := None\<rparr>\<rparr>)))"

subsection \<open>The per-frame update\<close>

text \<open>
  Lines 565-615. The guard \<^verbatim>\<open>cover.leftPivot && cover.rightPivot\<close> is true in every
  constructed book (the constructor assigns both), so its body is unconditional here.
\<close>

definition update_cover :: "real \<Rightarrow> book \<Rightarrow> book" where
  "update_cover now b =
     (if c_anim (cover b) then
        (let u = min 1 ((now - c_t0 (cover b)) / speed_cover b);
             k = easeInOut u;
             a = (if c_open (cover b) then k else 1 - k);
             b1 = b\<lparr>rotY := (rotY b)
                    (LeftCoverPivot := lerp leftClosedRot leftOpenRot a,
                     RightCoverPivot := lerp rightClosedRot rightOpenRot a,
                     HalfL := lerp (pi / 2) 0 a,
                     HalfR := lerp (- pi / 2) 0 a)\<rparr>;
             b2 = (if \<not> active (flip b1)
                   then set_visible UnderRight False (set_visible UnderLeft False b1)
                   else b1)
         in if u \<ge> 1 then b2\<lparr>cover := (cover b2)\<lparr>c_anim := False\<rparr>\<rparr> else b2)
      else
        (let closed = \<not> c_open (cover b);
             b1 = b\<lparr>rotY := (rotY b)
                    (LeftCoverPivot := (if c_open (cover b) then leftOpenRot else leftClosedRot),
                     RightCoverPivot := (if c_open (cover b) then rightOpenRot else rightClosedRot),
                     HalfL := (if closed then pi / 2 else 0),
                     HalfR := (if closed then - pi / 2 else 0))\<rparr>
         in if \<not> active (flip b1)
            then set_visible UnderRight False (set_visible UnderLeft False b1)
            else b1))"

text \<open>Lines 623-627: the opposite page and the hinge angle at eased progress \<open>k\<close>.\<close>

definition flip_frame :: "real \<Rightarrow> group_ref \<Rightarrow> book \<Rightarrow> book" where
  "flip_frame k p b =
     (let b1 = (case other (flip b) of
                  None \<Rightarrow> b
                | Some m \<Rightarrow>
                    set_visible m
                      (if k \<le> 55 / 100 then otherWasVisible (flip b) else False) b)
      in b1\<lparr>rotY := (rotY b1)(p := (if dir (flip b1) = Number 1 then - pi else pi) * k)\<rparr>)"

text \<open>Lines 617-629.\<close>

definition update_flip :: "real \<Rightarrow> book \<Rightarrow> (js_error \<times> book) + book" where
  "update_flip now b =
     (case pivot (flip b) of
        None \<Rightarrow> Inr b
      | Some p \<Rightarrow>
          if \<not> active (flip b) then Inr b
          else
            (let u = min 1 ((now - t0 (flip b)) / speed_flip b);
                 k = easeInOut u;
                 b2 = flip_frame k p b
             in if u \<ge> 1 then endFlip b2 else Inr b2))"

definition update :: "real \<Rightarrow> book \<Rightarrow> (js_error \<times> book) + book" where
  "update now b = update_flip now (update_cover now b)"

subsection \<open>Sequences of calls\<close>

text \<open>
  The object survives an exception: \<open>state_of\<close> is the book a call leaves behind,
  whether it returned or threw.
\<close>

definition state_of :: "(js_error \<times> book) + book \<Rightarrow> book" where
  "state_of r = (case r of Inl (_, b) \<Rightarrow> b | Inr b \<Rightarrow> b)"

datatype event = FlipPage real jsnum | ToggleCover real | Update real

fun step :: "event \<Rightarrow> book \<Rightarrow> book" where
  "step (FlipPage now d) b = state_of (flipPage now d b)"
| "step (ToggleCover now) b = toggleCover now b"
| "step (Update now) b = state_of (update now b)"

definition run :: "event list \<Rightarrow> book \<Rightarrow> book" where
  "run evs b = fold step evs b"

subsection \<open>Invariants and example inputs\<close>

text \<open>\<open>0 \<le> v < n\<close>, for a number \<open>v\<close>.\<close>

definition in_bounds :: "jsnum \<Rightarrow> nat \<Rightarrow> bool" where
  "in_bounds v n \<longleftrightarrow> (case v of Number x \<Rightarrow> 0 \<le> x \<and> x < real n | _ \<Rightarrow> False)"

text \<open>A three-spread book with the default durations, used to instantiate the theorems.\<close>

definition example_spreads :: "spread list" where
  "example_spreads =
     [\<lparr>left = Some (Texture 0), right = Some (Texture 1)\<rparr>,
      \<lparr>left = Some (Texture 2), right = Some (Texture 3)\<rparr>,
      \<lparr>left = Some (Texture 4), right = Some (Texture 5)\<rparr>]"

definition example_cfg :: config where
  "example_cfg =
     \<lparr>cfg_frontCoverTexture = Some (Texture 6), cfg_backCoverTexture = Some (Texture 7),
      cfg_spreads = example_spreads, cfg_speed_cover = None, cfg_speed_flip = None,
      cfg_initialSpreadIndex = None, cfg_pageInfo = Some ''Spread 1''\<rparr>"

definition example_book :: book where
  "example_book = projr (newBook example_cfg)"


text \<open>
  The state of a turn in progress around hinge \<open>p\<close>: \<open>page\<close> is the static page that
  turns, \<open>um\<close> the reveal surface, \<open>otherPage\<close> the opposite static page, \<open>q\<close> the idle
  hinge; the two transient surfaces are the children of \<open>p\<close>.
\<close>

definition turning ::
  "group_ref \<Rightarrow> mesh_ref \<Rightarrow> mesh_ref \<Rightarrow> mesh_ref \<Rightarrow> group_ref \<Rightarrow> book \<Rightarrow> bool" where
  "turning p page um otherPage q b \<longleftrightarrow>
     pivot (flip b) = Some p \<and> hidden (flip b) = Some page \<and> under (flip b) = Some um \<and>
     other (flip b) = Some otherPage \<and> children b q = [] \<and>
     (case frontMesh (flip b) of
        None \<Rightarrow> False
      | Some f \<Rightarrow> (case backMesh (flip b) of None \<Rightarrow> False | Some g \<Rightarrow> children b p = [f, g]))"

text \<open>
  The invariant of a constructed book. Without a selected hinge no transient surface
  exists; with one, a turn is active towards a spread of the list, set up on the right
  hinge for direction 1 and on the left hinge for any other direction.
\<close>

definition book_inv :: "book \<Rightarrow> bool" where
  "book_inv b \<longleftrightarrow>
     validateConfig (spreads b) = None \<and>
     is_index (spreads b) (spreadIndex b) \<and>
     (case pivot (flip b) of
        None \<Rightarrow>
          children b PivotL = [] \<and> children b PivotR = [] \<and>
          frontMesh (flip b) = None \<and> backMesh (flip b) = None \<and> hidden (flip b) = None
      | Some p \<Rightarrow>
          active (flip b) \<and>
          is_index (spreads b) (js_add (spreadIndex b) (dir (flip b))) \<and>
          (if dir (flip b) = Number 1 then turning PivotR RightPage UnderRight LeftPage PivotL b
           else turning PivotL LeftPage UnderLeft RightPage PivotR b))"


text \<open>While no hinge is selected, both static pages are visible.\<close>

definition pages_shown_at_rest :: "book \<Rightarrow> bool" where
  "pages_shown_at_rest b \<longleftrightarrow>
     (pivot (flip b) = None \<longrightarrow> visible b LeftPage \<and> visible b RightPage)"

text \<open>The example book with a flip duration of \<open>-1\<close> second (\<^verbatim>\<open>speeds: { flip: -1 }\<close>).\<close>

definition negative_cfg :: config where
  "negative_cfg = example_cfg\<lparr>cfg_speed_flip := Some (- 1)\<rparr>"

definition negative_book :: book where
  "negative_book = projr (newBook negative_cfg)"

text \<open>
  The example book after the host has hidden the left static page through the mesh
  that \<^verbatim>\<open>getLeftPage()\<close> hands out (\<^verbatim>\<open>book.getLeftPage().visible = false\<close>).
\<close>

definition hidden_left_book :: book where
  "hidden_left_book = example_book\<lparr>visible := (visible example_book)(LeftPage := False)\<rparr>"

text \<open>
  The example book after \<^verbatim>\<open>flipPage(0.5)\<close>, and the book with the negative flip duration
  after \<^verbatim>\<open>flipPage(1)\<close>, both called at time 0.
\<close>

definition stuck_book :: book where
  "stuck_book = run [FlipPage 0 (Number (1 / 2))] example_book"

definition negative_turn :: book where
  "negative_turn = run [FlipPage 0 (Number 1)] negative_book"

section \<open>Properties\<close>

subsection \<open>Running statements\<close>

lemma exec_append:
  "exec (xs @ ys) b = (case exec xs b of Inl e \<Rightarrow> Inl e | Inr c \<Rightarrow> exec ys c)"
  by (induction xs arbitrary: b) (simp_all split: sum.splits)

lemma states_after_append:
  "states_after (xs @ ys) b =
     states_after xs b @ (case exec xs b of Inl e \<Rightarrow> [] | Inr c \<Rightarrow> states_after ys c)"
  by (induction xs arbitrary: b) (simp_all split: sum.splits)

lemma exec_last: "exec ss b = Inr c \<Longrightarrow> last (b # states_after ss b) = c"
proof (induction ss arbitrary: b)
  case Nil
  then show ?case by simp
next
  case (Cons s ss)
  then obtain r where r: "s b = Inr r" "exec ss r = Inr c"
    by (auto split: sum.splits)
  have "last (r # states_after ss r) = c" using Cons.IH [OF r(2)] .
  then show ?case using r(1) by simp
qed

lemma is_index_Number:
  assumes "is_index xs i"
  obtains x where "i = Number x" "x = of_int \<lfloor>x\<rfloor>" "0 \<le> x" "x < real (length xs)"
  using assms by (cases i) (auto simp: is_index_def)

lemma is_index_guard:
  assumes "is_index xs i"
  shows "\<not> js_lt i (Number 0) \<and> \<not> js_ge i (Number (real (length xs)))"
  using assms by (cases i) (auto simp: is_index_def)

lemma element_at_Some: "element_at xs i = Some y \<Longrightarrow> is_index xs i"
  by (cases i) (auto simp: element_at_def split: if_splits)

lemma is_index_element: "is_index xs i \<Longrightarrow> \<exists>y. element_at xs i = Some y"
  by (cases i) (auto simp: element_at_def is_index_def)

subsection \<open>What each method leaves unchanged\<close>

lemmas stmts_defs = flip_stmts_def forward_stmts_def backward_stmts_def assign_def
  set_visible_def turn_build_def getFlippedTex_def cloneFlipX_def

lemma flipPage_frame:
  "spreads (state_of (flipPage now d b)) = spreads b \<and>
   spreadIndex (state_of (flipPage now d b)) = spreadIndex b \<and>
   cover (state_of (flipPage now d b)) = cover b \<and>
   speed_flip (state_of (flipPage now d b)) = speed_flip b \<and>
   speed_cover (state_of (flipPage now d b)) = speed_cover b"
  by (simp add: flipPage_def Let_def state_of_def stmts_defs
      split: option.splits sum.splits prod.splits)

lemma toggleCover_frame:
  "spreads (toggleCover now b) = spreads b \<and>
   spreadIndex (toggleCover now b) = spreadIndex b \<and>
   flip (toggleCover now b) = flip b \<and>
   flippedCache (toggleCover now b) = flippedCache b \<and>
   clones (toggleCover now b) = clones b \<and>
   speed_flip (toggleCover now b) = speed_flip b \<and>
   speed_cover (toggleCover now b) = speed_cover b"
  by (simp add: toggleCover_def)

lemma update_cover_frame:
  "spreads (update_cover now b) = spreads b \<and>
   spreadIndex (update_cover now b) = spreadIndex b \<and>
   flip (update_cover now b) = flip b \<and>
   flippedCache (update_cover now b) = flippedCache b \<and>
   clones (update_cover now b) = clones b \<and>
   speed_flip (update_cover now b) = speed_flip b \<and>
   speed_cover (update_cover now b) = speed_cover b"
  by (simp add: update_cover_def Let_def set_visible_def)

lemma cleanupFlipMeshes_frame:
  "spreads (cleanupFlipMeshes b) = spreads b \<and>
   spreadIndex (cleanupFlipMeshes b) = spreadIndex b \<and>
   cover (cleanupFlipMeshes b) = cover b \<and>
   flippedCache (cleanupFlipMeshes b) = flippedCache b \<and>
   clones (cleanupFlipMeshes b) = clones b \<and>
   speed_flip (cleanupFlipMeshes b) = speed_flip b \<and>
   speed_cover (cleanupFlipMeshes b) = speed_cover b"
  by (simp add: cleanupFlipMeshes_def Let_def set_visible_def detach_def split: option.splits)

lemma setSpread_frame:
  "spreads (state_of (setSpread i b)) = spreads b \<and>
   cover (state_of (setSpread i b)) = cover b \<and>
   flip (state_of (setSpread i b)) = flip b \<and>
   flippedCache (state_of (setSpread i b)) = flippedCache b \<and>
   clones (state_of (setSpread i b)) = clones b \<and>
   speed_flip (state_of (setSpread i b)) = speed_flip b \<and>
   speed_cover (state_of (setSpread i b)) = speed_cover b"
  by (simp add: setSpread_def Let_def state_of_def split: option.splits)

lemma endFlip_frame:
  "spreads (state_of (endFlip b)) = spreads b \<and>
   cover (state_of (endFlip b)) = cover b \<and>
   flippedCache (state_of (endFlip b)) = flippedCache b \<and>
   clones (state_of (endFlip b)) = clones b \<and>
   speed_flip (state_of (endFlip b)) = speed_flip b \<and>
   speed_cover (state_of (endFlip b)) = speed_cover b"
proof -
  let ?c = "cleanupFlipMeshes (set_visible_opt (hidden (flip b)) False (set_visible_opt (other (flip b)) False b))"
  have c: "spreads ?c = spreads b \<and> cover ?c = cover b \<and> flippedCache ?c = flippedCache b
     \<and> clones ?c = clones b \<and> speed_flip ?c = speed_flip b \<and> speed_cover ?c = speed_cover b"
    by (simp add: cleanupFlipMeshes_frame set_visible_opt_def set_visible_def split: option.splits)
  show ?thesis
    using setSpread_frame [of "js_add (spreadIndex ?c) (dir (flip ?c))" ?c] c
    by (auto simp: endFlip_def Let_def state_of_def set_visible_opt_def set_visible_def
        split: sum.splits option.splits prod.splits)
qed

lemma flip_frame_frame:
  "spreads (flip_frame k p b) = spreads b \<and>
   spreadIndex (flip_frame k p b) = spreadIndex b \<and>
   cover (flip_frame k p b) = cover b \<and>
   flippedCache (flip_frame k p b) = flippedCache b \<and>
   clones (flip_frame k p b) = clones b \<and>
   speed_flip (flip_frame k p b) = speed_flip b \<and>
   speed_cover (flip_frame k p b) = speed_cover b"
  by (simp add: flip_frame_def Let_def set_visible_def split: option.splits)

lemma update_flip_cases:
  "update_flip now b = Inr b \<or>
   (\<exists>k p. update_flip now b = Inr (flip_frame k p b)) \<or>
   (\<exists>k p. update_flip now b = endFlip (flip_frame k p b))"
  by (cases "pivot (flip b)") (auto simp: update_flip_def Let_def)

lemma update_flip_frame:
  "spreads (state_of (update_flip now b)) = spreads b \<and>
   cover (state_of (update_flip now b)) = cover b \<and>
   flippedCache (state_of (update_flip now b)) = flippedCache b \<and>
   clones (state_of (update_flip now b)) = clones b \<and>
   speed_flip (state_of (update_flip now b)) = speed_flip b \<and>
   speed_cover (state_of (update_flip now b)) = speed_cover b"
proof -
  consider "update_flip now b = Inr b"
    | k p where "update_flip now b = Inr (flip_frame k p b)"
    | k p where "update_flip now b = endFlip (flip_frame k p b)"
    using update_flip_cases by blast
  then show ?thesis
  proof cases
    case 1
    then show ?thesis by (simp add: state_of_def)
  next
    case 2
    then show ?thesis by (simp add: state_of_def flip_frame_frame)
  next
    case 3
    then show ?thesis by (simp add: endFlip_frame flip_frame_frame)
  qed
qed

lemma update_frame:
  "spreads (state_of (update now b)) = spreads b \<and>
   flippedCache (state_of (update now b)) = flippedCache b \<and>
   clones (state_of (update now b)) = clones b \<and>
   speed_flip (state_of (update now b)) = speed_flip b \<and>
   speed_cover (state_of (update now b)) = speed_cover b"
  using update_flip_frame [of now "update_cover now b"] update_cover_frame [of now b]
  by (simp add: update_def)

lemma example_book_constructed: "newBook example_cfg = Inr example_book"
proof -
  have "\<exists>b. newBook example_cfg = Inr b"
    by (simp add: newBook_def validateConfig_def example_cfg_def example_spreads_def
        initial_book_def setSpread_def Let_def clamp_def element_at_def is_index_def)
  then show ?thesis by (auto simp: example_book_def)
qed

subsection \<open>Rejected and accepted page turns\<close>

lemma flipPage_rejected:
  assumes "\<not> c_open (cover b) \<or> c_anim (cover b) \<or> active (flip b) \<or>
     js_lt (js_add (spreadIndex b) d) (Number 0) \<or>
     js_ge (js_add (spreadIndex b) d) (Number (real (length (spreads b))))"
  shows "flipPage now d b = Inr b"
  using assms by (auto simp: flipPage_def Let_def)

lemma flipPage_active:
  assumes "c_open (cover b)" "\<not> c_anim (cover b)" "\<not> active (flip b)"
    "\<not> js_lt (js_add (spreadIndex b) d) (Number 0)"
    "\<not> js_ge (js_add (spreadIndex b) d) (Number (real (length (spreads b))))"
  shows "active (flip (state_of (flipPage now d b))) \<and>
    dir (flip (state_of (flipPage now d b))) = d \<and>
    t0 (flip (state_of (flipPage now d b))) = now"
  using assms
  by (simp add: flipPage_def Let_def state_of_def stmts_defs
      split: option.splits sum.splits prod.splits)

lemma flip_frame_flip: "flip (flip_frame k p b) = flip b"
  by (simp add: flip_frame_def Let_def set_visible_def split: option.splits)

lemma update_flip_idle: "\<not> active (flip b) \<Longrightarrow> update_flip now b = Inr b"
  by (simp add: update_flip_def split: option.splits)

lemma update_flip_running:
  assumes "(now - t0 (flip b)) / speed_flip b < 1"
  shows "flip (state_of (update_flip now b)) = flip b \<and>
         spreadIndex (state_of (update_flip now b)) = spreadIndex b"
proof (cases "pivot (flip b)")
  case None
  then show ?thesis by (simp add: update_flip_def state_of_def)
next
  case (Some p)
  have "\<not> 1 \<le> min 1 ((now - t0 (flip b)) / speed_flip b)" using assms by simp
  then show ?thesis using Some
    by (simp add: update_flip_def Let_def state_of_def flip_frame_flip flip_frame_frame)
qed

lemma update_running:
  assumes "(now - t0 (flip b)) / speed_flip b < 1"
  shows "flip (state_of (update now b)) = flip b \<and>
         spreadIndex (state_of (update now b)) = spreadIndex b"
  using update_flip_running [of now "update_cover now b"] assms update_cover_frame [of now b]
  by (simp add: update_def)

lemma updates_running:
  assumes "0 < speed_flip b" "\<forall>t\<in>set ts. t - t0 (flip b) < speed_flip b"
  shows "flip (run (map Update ts) b) = flip b \<and> speed_flip (run (map Update ts) b) = speed_flip b"
  using assms
proof (induction ts arbitrary: b)
  case Nil
  then show ?case by (simp add: run_def)
next
  case (Cons t ts)
  let ?b = "state_of (update t b)"
  have "(t - t0 (flip b)) / speed_flip b < 1" using Cons.prems by simp
  then have f: "flip ?b = flip b" using update_running [of t b] by simp
  have s: "speed_flip ?b = speed_flip b" using update_frame [of t b] by simp
  have "flip (run (map Update ts) ?b) = flip ?b \<and> speed_flip (run (map Update ts) ?b) = speed_flip ?b"
    using Cons.IH [of ?b] Cons.prems f s by simp
  then show ?case using f s by (simp add: run_def)
qed

lemma example_book_fields:
  "spreadIndex example_book = Number 0" "spreads example_book = example_spreads"
  "cover example_book = \<lparr>c_open = True, c_t0 = 0, c_anim = False\<rparr>"
  "speed_flip example_book = 12 / 10" "speed_cover example_book = 16 / 10"
  "active (flip example_book) = False"
  by (simp_all add: example_book_def newBook_def validateConfig_def example_cfg_def
        example_spreads_def initial_book_def setSpread_def Let_def clamp_def element_at_def
        is_index_def)

subsection \<open>The cover animation\<close>

lemma toggleCover_rejected:
  "active (flip b) \<or> c_anim (cover b) \<Longrightarrow> toggleCover now b = b"
  by (auto simp: toggleCover_def)

lemma toggleCover_accepted:
  assumes "\<not> active (flip b)" "\<not> c_anim (cover b)"
  shows "cover (toggleCover now b) = \<lparr>c_open = \<not> c_open (cover b), c_t0 = now, c_anim = True\<rparr>"
  using assms by (simp add: toggleCover_def)

lemma update_cover_cover:
  "cover (update_cover now b) =
     (if c_anim (cover b) \<and> 1 \<le> (now - c_t0 (cover b)) / speed_cover b
      then (cover b)\<lparr>c_anim := False\<rparr> else cover b)"
  by (simp add: update_cover_def Let_def set_visible_def)

lemma update_idle_cover:
  assumes "\<not> active (flip b)"
  shows "cover (state_of (update now b)) =
     (if c_anim (cover b) \<and> 1 \<le> (now - c_t0 (cover b)) / speed_cover b
      then (cover b)\<lparr>c_anim := False\<rparr> else cover b) \<and>
    flip (state_of (update now b)) = flip b"
proof -
  have "\<not> active (flip (update_cover now b))"
    using assms update_cover_frame [of now b] by simp
  then have "update now b = Inr (update_cover now b)"
    by (simp add: update_def update_flip_idle)
  then show ?thesis
    using update_cover_cover [of now b] update_cover_frame [of now b] by (simp add: state_of_def)
qed

lemma updates_keep_open:
  assumes "\<not> active (flip b)"
  shows "c_open (cover (run (map Update ts) b)) = c_open (cover b) \<and>
         \<not> active (flip (run (map Update ts) b))"
  using assms
proof (induction ts arbitrary: b)
  case Nil
  then show ?case by (simp add: run_def)
next
  case (Cons t ts)
  let ?b = "state_of (update t b)"
  have "c_open (cover ?b) = c_open (cover b) \<and> \<not> active (flip ?b)"
    using update_idle_cover [OF Cons.prems, of t] Cons.prems by simp
  then show ?case using Cons.IH [of ?b] by (simp add: run_def)
qed

lemma updates_finish_cover:
  assumes "\<not> active (flip b)" "0 < speed_cover b"
    "\<not> c_anim (cover b) \<or> (\<exists>t\<in>set ts. speed_cover b \<le> t - c_t0 (cover b))"
  shows "\<not> c_anim (cover (run (map Update ts) b))"
  using assms
proof (induction ts arbitrary: b)
  case Nil
  then show ?case by (simp add: run_def)
next
  case (Cons t ts)
  let ?b = "state_of (update t b)"
  have c: "cover ?b =
     (if c_anim (cover b) \<and> 1 \<le> (t - c_t0 (cover b)) / speed_cover b
      then (cover b)\<lparr>c_anim := False\<rparr> else cover b)"
    and f: "\<not> active (flip ?b)"
    using update_idle_cover [OF Cons.prems(1), of t] Cons.prems(1) by simp_all
  have s: "speed_cover ?b = speed_cover b" using update_frame [of t b] by simp
  have d: "(1 \<le> (t - c_t0 (cover b)) / speed_cover b) = (speed_cover b \<le> t - c_t0 (cover b))"
    using Cons.prems(2) by simp
  have "\<not> c_anim (cover ?b) \<or> (\<exists>t\<in>set ts. speed_cover ?b \<le> t - c_t0 (cover ?b))"
    using Cons.prems(3) c d s by auto
  then have "\<not> c_anim (cover (run (map Update ts) ?b))"
    using Cons.IH [of ?b] f s Cons.prems(2) by simp
  then show ?case by (simp add: run_def)
qed

subsection \<open>C8: \<^verbatim>\<open>toggleCover\<close> and its round trip\<close>

text \<open>
  Claim C8. \<^verbatim>\<open>toggleCover\<close> changes nothing while a turn is active or a cover
  animation is in flight. Otherwise it negates \<^verbatim>\<open>isCoverOpen()\<close> at once, marks the
  animation as running and records the call time as its start. When the \<^verbatim>\<open>update\<close> calls
  that follow an accepted toggle include one at least the (positive) cover duration
  after it, the animation has ended, so a second toggle is accepted and brings
  \<^verbatim>\<open>isCoverOpen()\<close> back to its original value, where it stays over further updates.
\<close>

theorem toggleCover_round_trip:
  "(active (flip b) \<or> c_anim (cover b) \<longrightarrow> toggleCover now b = b) \<and>
   (\<not> active (flip b) \<and> \<not> c_anim (cover b) \<longrightarrow>
      isCoverOpen (toggleCover now b) = (\<not> isCoverOpen b) \<and>
      c_anim (cover (toggleCover now b)) \<and> c_t0 (cover (toggleCover now b)) = now) \<and>
   (\<not> active (flip b) \<and> \<not> c_anim (cover b) \<and> 0 < speed_cover b \<and>
      (\<exists>t\<in>set ts. speed_cover b \<le> t - now) \<longrightarrow>
      (let b1 = run (map Update ts) (toggleCover now b)
       in isCoverOpen b1 = (\<not> isCoverOpen b) \<and> \<not> active (flip b1) \<and> \<not> c_anim (cover b1) \<and>
          isCoverOpen (run (map Update ts2) (toggleCover now2 b1)) = isCoverOpen b))"
proof (intro conjI impI)
  assume "active (flip b) \<or> c_anim (cover b)"
  then show "toggleCover now b = b" by (rule toggleCover_rejected)
next
  assume a: "\<not> active (flip b) \<and> \<not> c_anim (cover b)"
  then show "isCoverOpen (toggleCover now b) = (\<not> isCoverOpen b)"
    and "c_anim (cover (toggleCover now b))" and "c_t0 (cover (toggleCover now b)) = now"
    using toggleCover_accepted [of b now] by (simp_all add: isCoverOpen_def)
next
  assume a: "\<not> active (flip b) \<and> \<not> c_anim (cover b) \<and> 0 < speed_cover b \<and>
      (\<exists>t\<in>set ts. speed_cover b \<le> t - now)"
  let ?a = "toggleCover now b"
  let ?b1 = "run (map Update ts) ?a"
  have ca: "cover ?a = \<lparr>c_open = \<not> c_open (cover b), c_t0 = now, c_anim = True\<rparr>"
    using a toggleCover_accepted [of b now] by simp
  have fa: "\<not> active (flip ?a)" and sa: "speed_cover ?a = speed_cover b"
    using a toggleCover_frame [of now b] by simp_all
  have o1: "c_open (cover ?b1) = (\<not> c_open (cover b))" and f1: "\<not> active (flip ?b1)"
    using updates_keep_open [OF fa, of ts] ca by simp_all
  have n1: "\<not> c_anim (cover ?b1)"
    using updates_finish_cover [OF fa, of ts] a ca sa by simp
  let ?c = "toggleCover now2 ?b1"
  have cc: "c_open (cover ?c) = c_open (cover b)"
    using toggleCover_accepted [OF f1 n1, of now2] o1 by simp
  have fc: "\<not> active (flip ?c)" using f1 toggleCover_frame [of now2 ?b1] by simp
  have "c_open (cover (run (map Update ts2) ?c)) = c_open (cover b)"
    using updates_keep_open [OF fc, of ts2] cc by simp
  then show "let b1 = run (map Update ts) (toggleCover now b)
       in isCoverOpen b1 = (\<not> isCoverOpen b) \<and> \<not> active (flip b1) \<and> \<not> c_anim (cover b1) \<and>
          isCoverOpen (run (map Update ts2) (toggleCover now2 b1)) = isCoverOpen b"
    using o1 f1 n1 by (simp add: Let_def isCoverOpen_def)
qed

theorem toggleCover_round_trip_witness:
  "\<not> active (flip example_book) \<and> \<not> c_anim (cover example_book) \<and>
   0 < speed_cover example_book \<and> speed_cover example_book \<le> 2 - 0 \<and>
   isCoverOpen example_book \<and>
   \<not> isCoverOpen (toggleCover 0 example_book) \<and>
   c_anim (cover (toggleCover 0 example_book)) \<and>
   \<not> isCoverOpen (run (map Update [1, 2]) (toggleCover 0 example_book)) \<and>
   \<not> c_anim (cover (run (map Update [1, 2]) (toggleCover 0 example_book))) \<and>
   isCoverOpen (run (map Update [4, 5])
      (toggleCover 3 (run (map Update [1, 2]) (toggleCover 0 example_book))))"
  using toggleCover_round_trip [of example_book 0 "[1, 2]" "[4, 5]" 3]
  by (simp add: example_book_fields Let_def isCoverOpen_def)

subsection \<open>The texture flip cache\<close>













lemma newBook_returns:
  assumes "newBook cfg = Inr b"
  shows "validateConfig (cfg_spreads cfg) = None"
    "cfg_frontCoverTexture cfg \<noteq> None" "cfg_backCoverTexture cfg \<noteq> None"
    "setSpread (spreadIndex (initial_book cfg)) (initial_book cfg) = Inr b"
  using assms
  by (auto simp: newBook_def split: option.splits sum.splits prod.splits if_splits)



subsection \<open>C9: one mirrored texture per cache key\<close>



subsection \<open>The invariant of a constructed book\<close>

lemma setSpread_returns:
  assumes "setSpread i b = Inr c"
  shows "is_index (spreads b) (spreadIndex c) \<and>
         spreadIndex c = clamp i (Number 0) (Number (real (length (spreads b)) - 1)) \<and>
         children c = children b \<and> visible c = visible b \<and> rotY c = rotY b"
proof (cases "element_at (spreads b) (clamp i (Number 0) (Number (real (length (spreads b)) - 1)))")
  case None
  then show ?thesis using assms by (simp add: setSpread_def Let_def)
next
  case (Some sp)
  then have "is_index (spreads b) (clamp i (Number 0) (Number (real (length (spreads b)) - 1)))"
    by (rule element_at_Some)
  then show ?thesis using assms Some by (auto simp: setSpread_def Let_def)
qed

lemma newBook_inv:
  assumes "newBook cfg = Inr b"
  shows "book_inv b"
proof -
  let ?ib = "initial_book cfg"
  have v: "validateConfig (cfg_spreads cfg) = None"
    and s: "setSpread (spreadIndex ?ib) ?ib = Inr b"
    using newBook_returns [OF assms] by simp_all
  have f: "flip b = flip ?ib" "spreads b = spreads ?ib"
    using setSpread_frame [of "spreadIndex ?ib" ?ib] s by (simp_all add: state_of_def)
  have c: "is_index (spreads ?ib) (spreadIndex b)" "children b = children ?ib"
    using setSpread_returns [OF s] by blast+
  have i: "spreads ?ib = cfg_spreads cfg" "children ?ib = (\<lambda>_. [])"
    "pivot (flip ?ib) = None" "frontMesh (flip ?ib) = None" "backMesh (flip ?ib) = None"
    "hidden (flip ?ib) = None"
    by (simp_all add: initial_book_def)
  show ?thesis
    using v c by (simp add: book_inv_def f i)
qed

lemma turning_cong:
  assumes "flip c = flip b" "children c = children b"
  shows "turning p page um op q c = turning p page um op q b"
  by (simp add: turning_def assms cong: option.case_cong)

lemma book_inv_cong:
  assumes "spreads c = spreads b" "spreadIndex c = spreadIndex b" "flip c = flip b"
    "children c = children b"
  shows "book_inv c = book_inv b"
  by (simp add: book_inv_def turning_def assms cong: option.case_cong if_cong)

lemma toggleCover_inv: "book_inv b \<Longrightarrow> book_inv (toggleCover now b)"
  using book_inv_cong [of "toggleCover now b" b] by (simp add: toggleCover_def)

lemma update_cover_children: "children (update_cover now b) = children b"
  by (simp add: update_cover_def Let_def set_visible_def)

lemma update_cover_inv: "book_inv b \<Longrightarrow> book_inv (update_cover now b)"
  using book_inv_cong [of "update_cover now b" b] update_cover_frame [of now b]
  by (simp add: update_cover_children)

lemma flip_frame_children: "children (flip_frame k p b) = children b"
  by (simp add: flip_frame_def Let_def set_visible_def split: option.splits)

lemma flip_frame_inv: "book_inv b \<Longrightarrow> book_inv (flip_frame k p b)"
  using book_inv_cong [of "flip_frame k p b" b] flip_frame_frame [of k p b]
  by (simp add: flip_frame_children flip_frame_flip)

lemma is_index_clamp:
  assumes "is_index xs i"
  shows "clamp i (Number 0) (Number (real (length xs) - 1)) = i"
proof -
  obtain x where x: "i = Number x" "x = of_int \<lfloor>x\<rfloor>" "0 \<le> x" "x < real (length xs)"
    using assms by (rule is_index_Number)
  then have "\<lfloor>x\<rfloor> < int (length xs)" by linarith
  then have "\<lfloor>x\<rfloor> \<le> int (length xs) - 1" by simp
  then have "of_int \<lfloor>x\<rfloor> \<le> real (length xs) - 1" by linarith
  then have "x \<le> real (length xs) - 1" using x(2) by simp
  then show ?thesis using x(1,3) by (simp add: clamp_def)
qed

lemma setSpread_index:
  assumes "is_index (spreads b) i"
  shows "\<exists>c. setSpread i b = Inr c \<and> spreadIndex c = i"
proof -
  obtain sp where "element_at (spreads b) i = Some sp"
    using is_index_element [OF assms] by blast
  then show ?thesis
    by (simp add: setSpread_def Let_def is_index_clamp [OF assms])
qed

lemma cleanupFlipMeshes_turning:
  assumes "turning p page um op q b"
  shows "children (cleanupFlipMeshes b) = (children b)(p := []) \<and>
         visible (cleanupFlipMeshes b) = (visible b)(um := False, op := otherWasVisible (flip b)) \<and>
         flip (cleanupFlipMeshes b) =
           (flip b)\<lparr>frontMesh := None, backMesh := None, under := None, other := None,
                    otherWasVisible := True\<rparr>"
proof -
  obtain f g where t: "pivot (flip b) = Some p" "under (flip b) = Some um"
    "other (flip b) = Some op" "frontMesh (flip b) = Some f" "backMesh (flip b) = Some g"
    "children b p = [f, g]"
    using assms by (auto simp: turning_def split: option.splits)
  show ?thesis
    by (simp add: cleanupFlipMeshes_def detach_def set_visible_def Let_def t)
qed

lemma set_visible_flip: "flip (set_visible m v b) = flip b"
  by (simp add: set_visible_def)

lemma endFlip_turning:
  assumes t: "turning p page um op q b"
    and i: "is_index (spreads b) (js_add (spreadIndex b) (dir (flip b)))"
    and d: "page \<noteq> um" "page \<noteq> op" "um \<noteq> op"
  shows "\<exists>c. endFlip b = Inr c \<and> spreadIndex c = js_add (spreadIndex b) (dir (flip b)) \<and>
           children c = (children b)(p := []) \<and>
           visible c = (visible b)(um := False, page := True, op := True) \<and>
           flip c = \<lparr>active = False, dir = Number 0, t0 = t0 (flip b), pivot = None, hidden = None,
                     frontMesh = None, backMesh = None, under = None, other = None,
                     otherWasVisible = True\<rparr> \<and>
           spreads c = spreads b \<and> rotY c = rotY b"
proof -
  have h: "hidden (flip b) = Some page" "other (flip b) = Some op"
    using t by (simp_all add: turning_def)
  define b2 where "b2 = set_visible page False (set_visible op False b)"
  have b2: "flip b2 = flip b" "children b2 = children b" "spreads b2 = spreads b"
    "spreadIndex b2 = spreadIndex b" "rotY b2 = rotY b"
    "visible b2 = (visible b)(op := False, page := False)"
    by (simp_all add: b2_def set_visible_def)
  have t2: "turning p page um op q b2"
    using t turning_cong [of b2 b] by (simp add: b2)
  define b3 where "b3 = cleanupFlipMeshes b2"
  have b3: "children b3 = (children b)(p := [])"
    "visible b3 = (visible b)(op := False, page := False, um := False,
        op := otherWasVisible (flip b))"
    "flip b3 = (flip b)\<lparr>frontMesh := None, backMesh := None, under := None, other := None,
                    otherWasVisible := True\<rparr>"
    "spreads b3 = spreads b" "spreadIndex b3 = spreadIndex b"
    using cleanupFlipMeshes_turning [OF t2] cleanupFlipMeshes_frame [of b2]
    by (simp_all add: b3_def b2)
  have r3: "rotY b3 = rotY b"
    by (simp add: b3_def cleanupFlipMeshes_def Let_def detach_def set_visible_def b2
        split: option.splits)
  have "is_index (spreads b3) (js_add (spreadIndex b3) (dir (flip b3)))"
    using i by (simp add: b3)
  then obtain b4 where b4: "setSpread (js_add (spreadIndex b3) (dir (flip b3))) b3 = Inr b4"
    "spreadIndex b4 = js_add (spreadIndex b3) (dir (flip b3))"
    using setSpread_index by blast
  have f4: "flip b4 = flip b3" "spreads b4 = spreads b3"
    using setSpread_frame [of "js_add (spreadIndex b3) (dir (flip b3))" b3] b4(1)
    by (simp_all add: state_of_def)
  have c4: "children b4 = children b3" "visible b4 = visible b3" "rotY b4 = rotY b3"
    using setSpread_returns [OF b4(1)] by blast+
  have e: "endFlip b =
      Inr ((set_visible op True (set_visible page True b4))
            \<lparr>flip := (flip (set_visible op True (set_visible page True b4)))
               \<lparr>active := False, dir := Number 0, pivot := None, hidden := None\<rparr>\<rparr>)"
    using b4(1)
    by (simp only: endFlip_def Let_def h set_visible_opt_def option.case set_visible_flip
        b2_def b3_def sum.case)
  have v: "(visible b)(op := False, page := False, um := False,
        op := otherWasVisible (flip b), page := True, op := True) =
      (visible b)(um := False, page := True, op := True)"
    using d by (auto simp: fun_eq_iff)
  show ?thesis
    using v by (simp add: e set_visible_def b4 f4 c4 b3 r3)
qed

lemma endFlip_inv:
  assumes "book_inv b" "pivot (flip b) = Some p"
  shows "\<exists>c. endFlip b = Inr c \<and> book_inv c \<and> \<not> active (flip c) \<and>
           spreadIndex c = js_add (spreadIndex b) (dir (flip b))"
proof -
  have v: "validateConfig (spreads b) = None"
    and i: "is_index (spreads b) (js_add (spreadIndex b) (dir (flip b)))"
    and t: "if dir (flip b) = Number 1 then turning PivotR RightPage UnderRight LeftPage PivotL b
           else turning PivotL LeftPage UnderLeft RightPage PivotR b"
    using assms by (simp_all add: book_inv_def)
  show ?thesis
  proof (cases "dir (flip b) = Number 1")
    case True
    then have t1: "turning PivotR RightPage UnderRight LeftPage PivotL b" using t by simp
    then have q: "children b PivotL = []" by (simp add: turning_def)
    obtain c where c: "endFlip b = Inr c" "spreadIndex c = js_add (spreadIndex b) (dir (flip b))"
      "children c = (children b)(PivotR := [])" "spreads c = spreads b"
      "flip c = \<lparr>active = False, dir = Number 0, t0 = t0 (flip b), pivot = None, hidden = None,
                     frontMesh = None, backMesh = None, under = None, other = None,
                     otherWasVisible = True\<rparr>"
      using endFlip_turning [OF t1 i] by auto
    have "book_inv c" using v i q by (simp add: book_inv_def c)
    then show ?thesis using c by simp
  next
    case False
    then have t1: "turning PivotL LeftPage UnderLeft RightPage PivotR b" using t by simp
    then have q: "children b PivotR = []" by (simp add: turning_def)
    obtain c where c: "endFlip b = Inr c" "spreadIndex c = js_add (spreadIndex b) (dir (flip b))"
      "children c = (children b)(PivotL := [])" "spreads c = spreads b"
      "flip c = \<lparr>active = False, dir = Number 0, t0 = t0 (flip b), pivot = None, hidden = None,
                     frontMesh = None, backMesh = None, under = None, other = None,
                     otherWasVisible = True\<rparr>"
      using endFlip_turning [OF t1 i] by auto
    have "book_inv c" using v i q by (simp add: book_inv_def c)
    then show ?thesis using c by simp
  qed
qed

lemma update_flip_inv:
  assumes "book_inv b"
  shows "book_inv (state_of (update_flip now b))"
proof (cases "pivot (flip b)")
  case None
  then show ?thesis using assms by (simp add: update_flip_def state_of_def)
next
  case (Some p)
  have f: "book_inv (flip_frame k p b) \<and> pivot (flip (flip_frame k p b)) = Some p" for k
    using assms Some by (simp add: flip_frame_inv flip_frame_flip)
  have "book_inv (state_of (endFlip (flip_frame k p b)))" for k
    using endFlip_inv [of "flip_frame k p b" p] f by (auto simp: state_of_def)
  then show ?thesis
    using Some f assms by (simp add: update_flip_def Let_def state_of_def [of "Inr _"])
qed

lemma update_inv: "book_inv b \<Longrightarrow> book_inv (state_of (update now b))"
  by (simp add: update_def update_flip_inv update_cover_inv)

subsection \<open>An accepted page turn\<close>

lemma sum_case_id: "(case r of Inl e \<Rightarrow> Inl e | Inr c \<Rightarrow> Inr c) = r"
  by (cases r) auto

lemma element_at_None: "\<not> is_index xs i \<Longrightarrow> element_at xs i = None"
  by (cases i) (simp_all add: element_at_def)

lemma getFlippedTex_returns:
  assumes "tex \<noteq> None"
  shows "\<exists>t c. getFlippedTex tex k b = Inr (t, c) \<and> flip c = flip b \<and>
           children c = children b \<and> visible c = visible b \<and> matMap c = matMap b \<and>
           rotY c = rotY b \<and> spreads c = spreads b \<and> spreadIndex c = spreadIndex b \<and>
           cover c = cover b"
  using assms by (cases tex; cases "flippedCache b k") (simp_all add: getFlippedTex_def cloneFlipX_def)

lemma turn_build_returns:
  assumes "tex \<noteq> None"
  shows "\<exists>c f g. turn_build pm tex k geo piv b = Inr c \<and>
           flip c = (flip b)\<lparr>frontMesh := Some f, backMesh := Some g\<rparr> \<and>
           children c = (children b)(piv := children b piv @ [f, g]) \<and>
           visible c = visible b \<and> matMap c = matMap b \<and>
           rotY c = rotY b \<and> spreads c = spreads b \<and> spreadIndex c = spreadIndex b \<and>
           cover c = cover b"
proof -
  obtain t c where g: "getFlippedTex tex k b = Inr (t, c)" "flip c = flip b"
    "children c = children b" "visible c = visible b" "matMap c = matMap b"
    "rotY c = rotY b" "spreads c = spreads b" "spreadIndex c = spreadIndex b" "cover c = cover b"
    using getFlippedTex_returns [OF assms, of k b] by blast
  show ?thesis
    by (simp add: turn_build_def Let_def g) blast
qed

lemma element_at_valid:
  assumes "validateConfig xs = None" "element_at xs i = Some sp"
  shows "left sp \<noteq> None \<and> right sp \<noteq> None"
proof -
  obtain x where x: "i = Number x" "x = of_int \<lfloor>x\<rfloor>" "0 \<le> x" "x < real (length xs)"
    using element_at_Some [OF assms(2)] by (rule is_index_Number)
  have sp: "sp = xs ! nat \<lfloor>x\<rfloor>"
    using assms(2) x(1) by (simp add: element_at_def split: if_splits)
  have "nat \<lfloor>x\<rfloor> < length xs" using x(3,4) by linarith
  then have "sp \<in> set xs" using sp by simp
  moreover have "list_all (\<lambda>s. left s \<noteq> None \<and> right s \<noteq> None) xs"
    using assms(1) by (simp add: validateConfig_def split: if_splits)
  ultimately show ?thesis by (simp add: list_all_iff)
qed

lemma flipPage_forward:
  assumes inv: "book_inv b"
    and g: "c_open (cover b)" "\<not> c_anim (cover b)" "\<not> active (flip b)"
    and i: "is_index (spreads b) (js_add (spreadIndex b) (Number 1))"
  shows "\<exists>c sp. flipPage now (Number 1) b = Inr c \<and>
           element_at (spreads b) (js_add (spreadIndex b) (Number 1)) = Some sp \<and>
           turning PivotR RightPage UnderRight LeftPage PivotL c \<and>
           active (flip c) \<and> dir (flip c) = Number 1 \<and> t0 (flip c) = now \<and>
           otherWasVisible (flip c) = visible b LeftPage \<and>
           visible c = (visible b)(UnderRight := True, RightPage := False) \<and>
           matMap c = (matMap b)(UnderMatR := right sp) \<and>
           rotY c = (rotY b)(PivotR := 0) \<and>
           spreads c = spreads b \<and> spreadIndex c = spreadIndex b \<and> cover c = cover b \<and>
           flipPage_states now (Number 1) b \<noteq> [] \<and> last (flipPage_states now (Number 1) b) = c \<and>
           (visible b RightPage \<longrightarrow>
              (\<forall>s\<in>set (flipPage_states now (Number 1) b).
                 visible s RightPage \<or> visible s UnderRight \<and> matMap s UnderMatR = right sp))"
proof -
  have p: "pivot (flip b) = None"
    using inv g(3) by (cases "pivot (flip b)") (simp_all add: book_inv_def)
  then have ch: "children b PivotL = []" "children b PivotR = []"
    using inv by (simp_all add: book_inv_def)
  define n where "n = js_add (spreadIndex b) (Number 1)"
  obtain sp where sp: "element_at (spreads b) n = Some sp"
    using is_index_element [OF i] by (auto simp: n_def)
  have v: "left sp \<noteq> None"
    using element_at_valid [OF _ sp] inv by (simp add: book_inv_def)
  have bounds: "\<not> js_lt n (Number 0)" "\<not> js_ge n (Number (real (length (spreads b))))"
    using is_index_guard [OF i] by (simp_all add: n_def)
  define ss where "ss = flip_stmts now (Number 1) n"
  define pre where "pre = butlast ss"
  define lst where "lst = last ss"
  have ss: "ss = pre @ [lst]"
    by (simp add: pre_def lst_def ss_def flip_stmts_def forward_stmts_def)
  have fp: "flipPage now (Number 1) b = exec ss b" "flipPage_states now (Number 1) b = states_after ss b"
    using g bounds
    by (simp_all add: flipPage_def flipPage_states_def Let_def ss_def n_def [symmetric])
  define r where "r = b\<lparr>flip := (flip b)\<lparr>active := True, dir := Number 1, t0 := now,
        other := Some LeftPage, otherWasVisible := visible b LeftPage, under := Some UnderRight,
        hidden := Some RightPage, pivot := Some PivotR\<rparr>,
      visible := (visible b)(UnderRight := True, RightPage := False),
      matMap := (matMap b)(UnderMatR := right sp),
      rotY := (rotY b)(PivotR := 0)\<rparr>"
  have r: "flip r = (flip b)\<lparr>active := True, dir := Number 1, t0 := now, other := Some LeftPage,
        otherWasVisible := visible b LeftPage, under := Some UnderRight,
        hidden := Some RightPage, pivot := Some PivotR\<rparr>"
    "children r = children b" "visible r = (visible b)(UnderRight := True, RightPage := False)"
    "matMap r = (matMap b)(UnderMatR := right sp)" "rotY r = (rotY b)(PivotR := 0)"
    "spreads r = spreads b" "spreadIndex r = spreadIndex b" "cover r = cover b"
    by (simp_all add: r_def)
  have pre: "exec pre b = Inr r"
    using sp
    by (simp add: pre_def ss_def flip_stmts_def forward_stmts_def assign_def set_visible_def r_def)
  define key where "key = ''flip:'' @ show_num n @ '':left''"
  have lst: "lst r = turn_build RightMat (left sp) key GeoTurnR PivotR r"
    using sp by (simp add: lst_def ss_def flip_stmts_def forward_stmts_def r(6) key_def)
  obtain c f g where c: "turn_build RightMat (left sp) key GeoTurnR PivotR r = Inr c"
    "flip c = (flip r)\<lparr>frontMesh := Some f, backMesh := Some g\<rparr>"
    "children c = (children r)(PivotR := children r PivotR @ [f, g])"
    "visible c = visible r" "matMap c = matMap r" "rotY c = rotY r" "spreads c = spreads r"
    "spreadIndex c = spreadIndex r" "cover c = cover r"
    using turn_build_returns [OF v] by blast
  have e: "flipPage now (Number 1) b = Inr c"
    by (simp add: fp(1) ss exec_append pre sum_case_id lst c(1))
  have st: "flipPage_states now (Number 1) b = states_after pre b @ [c]"
    by (simp add: fp(2) ss states_after_append pre lst c(1))
  have tr: "\<forall>s\<in>set (states_after pre b). visible s RightPage \<or> visible s UnderRight \<and> matMap s UnderMatR = right sp"
    if "visible b RightPage"
    using that sp
    by (simp add: pre_def ss_def flip_stmts_def forward_stmts_def assign_def set_visible_def)
  have "turning PivotR RightPage UnderRight LeftPage PivotL c"
    by (simp add: turning_def c r ch)
  then show ?thesis
    using sp tr by (intro exI [of _ c] exI [of _ sp]) (simp add: e st c r n_def)
qed

lemma flipPage_backward:
  assumes inv: "book_inv b"
    and g: "c_open (cover b)" "\<not> c_anim (cover b)" "\<not> active (flip b)"
    and d: "d \<noteq> Number 1"
    and i: "is_index (spreads b) (js_add (spreadIndex b) d)"
  shows "\<exists>c sp. flipPage now d b = Inr c \<and>
           element_at (spreads b) (js_add (spreadIndex b) d) = Some sp \<and>
           turning PivotL LeftPage UnderLeft RightPage PivotR c \<and>
           active (flip c) \<and> dir (flip c) = d \<and> t0 (flip c) = now \<and>
           otherWasVisible (flip c) = visible b RightPage \<and>
           visible c = (visible b)(UnderLeft := True, LeftPage := False) \<and>
           matMap c = (matMap b)(UnderMatL := left sp) \<and>
           rotY c = (rotY b)(PivotL := 0) \<and>
           spreads c = spreads b \<and> spreadIndex c = spreadIndex b \<and> cover c = cover b \<and>
           flipPage_states now d b \<noteq> [] \<and> last (flipPage_states now d b) = c \<and>
           (visible b LeftPage \<longrightarrow>
              (\<forall>s\<in>set (flipPage_states now d b).
                 visible s LeftPage \<or> visible s UnderLeft \<and> matMap s UnderMatL = left sp))"
proof -
  have p: "pivot (flip b) = None"
    using inv g(3) by (cases "pivot (flip b)") (simp_all add: book_inv_def)
  then have ch: "children b PivotR = []" "children b PivotL = []"
    using inv by (simp_all add: book_inv_def)
  define n where "n = js_add (spreadIndex b) d"
  obtain sp where sp: "element_at (spreads b) n = Some sp"
    using is_index_element [OF i] by (auto simp: n_def)
  have v: "right sp \<noteq> None"
    using element_at_valid [OF _ sp] inv by (simp add: book_inv_def)
  have bounds: "\<not> js_lt n (Number 0)" "\<not> js_ge n (Number (real (length (spreads b))))"
    using is_index_guard [OF i] by (simp_all add: n_def)
  define ss where "ss = flip_stmts now d n"
  define pre where "pre = butlast ss"
  define lst where "lst = last ss"
  have ss: "ss = pre @ [lst]"
    by (simp add: pre_def lst_def ss_def flip_stmts_def backward_stmts_def)
  have fp: "flipPage now d b = exec ss b" "flipPage_states now d b = states_after ss b"
    using g bounds
    by (simp_all add: flipPage_def flipPage_states_def Let_def ss_def n_def [symmetric])
  define r where "r = b\<lparr>flip := (flip b)\<lparr>active := True, dir := d, t0 := now,
        other := Some RightPage, otherWasVisible := visible b RightPage, under := Some UnderLeft,
        hidden := Some LeftPage, pivot := Some PivotL\<rparr>,
      visible := (visible b)(UnderLeft := True, LeftPage := False),
      matMap := (matMap b)(UnderMatL := left sp),
      rotY := (rotY b)(PivotL := 0)\<rparr>"
  have r: "flip r = (flip b)\<lparr>active := True, dir := d, t0 := now, other := Some RightPage,
        otherWasVisible := visible b RightPage, under := Some UnderLeft,
        hidden := Some LeftPage, pivot := Some PivotL\<rparr>"
    "children r = children b" "visible r = (visible b)(UnderLeft := True, LeftPage := False)"
    "matMap r = (matMap b)(UnderMatL := left sp)" "rotY r = (rotY b)(PivotL := 0)"
    "spreads r = spreads b" "spreadIndex r = spreadIndex b" "cover r = cover b"
    by (simp_all add: r_def)
  have pre: "exec pre b = Inr r"
    using d sp
    by (simp add: pre_def ss_def flip_stmts_def backward_stmts_def assign_def set_visible_def r_def)
  define key where "key = ''flip:'' @ show_num n @ '':right''"
  have lst: "lst r = turn_build LeftMat (right sp) key GeoTurnL PivotL r"
    using d sp by (simp add: lst_def ss_def flip_stmts_def backward_stmts_def r(6) key_def)
  obtain c f g where c: "turn_build LeftMat (right sp) key GeoTurnL PivotL r = Inr c"
    "flip c = (flip r)\<lparr>frontMesh := Some f, backMesh := Some g\<rparr>"
    "children c = (children r)(PivotL := children r PivotL @ [f, g])"
    "visible c = visible r" "matMap c = matMap r" "rotY c = rotY r" "spreads c = spreads r"
    "spreadIndex c = spreadIndex r" "cover c = cover r"
    using turn_build_returns [OF v] by blast
  have e: "flipPage now d b = Inr c"
    by (simp add: fp(1) ss exec_append pre sum_case_id lst c(1))
  have st: "flipPage_states now d b = states_after pre b @ [c]"
    by (simp add: fp(2) ss states_after_append pre lst c(1))
  have tr: "\<forall>s\<in>set (states_after pre b). visible s LeftPage \<or> visible s UnderLeft \<and> matMap s UnderMatL = left sp"
    if "visible b LeftPage"
    using that sp
    by (simp add: pre_def ss_def flip_stmts_def backward_stmts_def assign_def set_visible_def d)
  have "turning PivotL LeftPage UnderLeft RightPage PivotR c"
    by (simp add: turning_def c r ch)
  then show ?thesis
    using sp tr by (intro exI [of _ c] exI [of _ sp]) (simp add: e st c r n_def)
qed

lemma flipPage_throws:
  assumes "c_open (cover b)" "\<not> c_anim (cover b)" "\<not> active (flip b)"
    "\<not> js_lt (js_add (spreadIndex b) d) (Number 0)"
    "\<not> js_ge (js_add (spreadIndex b) d) (Number (real (length (spreads b))))"
    "\<not> is_index (spreads b) (js_add (spreadIndex b) d)"
  shows "flipPage now d b =
     Inl (TypeError,
          b\<lparr>flip := (flip b)\<lparr>active := True, dir := d, t0 := now,
                 other := Some (if d = Number 1 then LeftPage else RightPage),
                 otherWasVisible := visible b (if d = Number 1 then LeftPage else RightPage)\<rparr>,
            visible := (visible b)((if d = Number 1 then UnderRight else UnderLeft) := True)\<rparr>)"
  using assms element_at_None [OF assms(6)]
  by (cases "d = Number 1")
    (simp_all add: flipPage_def Let_def flip_stmts_def forward_stmts_def backward_stmts_def
      assign_def set_visible_def)

lemma flipPage_inv:
  assumes "book_inv b"
  shows "book_inv (state_of (flipPage now d b))"
proof (cases "c_open (cover b) \<and> \<not> c_anim (cover b) \<and> \<not> active (flip b) \<and>
    \<not> js_lt (js_add (spreadIndex b) d) (Number 0) \<and>
    \<not> js_ge (js_add (spreadIndex b) d) (Number (real (length (spreads b))))")
  case False
  then have "flipPage now d b = Inr b" by (intro flipPage_rejected) auto
  then show ?thesis using assms by (simp add: state_of_def)
next
  case g: True
  have v: "validateConfig (spreads b) = None" "is_index (spreads b) (spreadIndex b)"
    using assms by (simp_all add: book_inv_def)
  show ?thesis
  proof (cases "is_index (spreads b) (js_add (spreadIndex b) d)")
    case False
    have p: "pivot (flip b) = None"
      using assms g by (cases "pivot (flip b)") (simp_all add: book_inv_def)
    let ?c = "b\<lparr>flip := (flip b)\<lparr>active := True, dir := d, t0 := now,
                 other := Some (if d = Number 1 then LeftPage else RightPage),
                 otherWasVisible := visible b (if d = Number 1 then LeftPage else RightPage)\<rparr>,
            visible := (visible b)((if d = Number 1 then UnderRight else UnderLeft) := True)\<rparr>"
    have "book_inv ?c"
      using assms p by (simp add: book_inv_def)
    then show ?thesis using flipPage_throws [of b d now] g False by (simp add: state_of_def)
  next
    case True
    show ?thesis
    proof (cases "d = Number 1")
      case d1: True
      obtain c where c: "flipPage now (Number 1) b = Inr c"
        "turning PivotR RightPage UnderRight LeftPage PivotL c"
        "active (flip c)" "dir (flip c) = Number 1" "spreads c = spreads b"
        "spreadIndex c = spreadIndex b"
        using flipPage_forward [OF assms, of now] g True d1 by auto
      have "pivot (flip c) = Some PivotR" using c(2) by (simp add: turning_def)
      then have "book_inv c" using v True d1 c by (simp add: book_inv_def)
      then show ?thesis using c(1) d1 by (simp add: state_of_def)
    next
      case d1: False
      obtain c where c: "flipPage now d b = Inr c"
        "turning PivotL LeftPage UnderLeft RightPage PivotR c"
        "active (flip c)" "dir (flip c) = d" "spreads c = spreads b" "spreadIndex c = spreadIndex b"
        using flipPage_backward [OF assms _ _ _ d1, of now] g True by auto
      have "pivot (flip c) = Some PivotL" using c(2) by (simp add: turning_def)
      then have "book_inv c" using v True d1 c by (simp add: book_inv_def)
      then show ?thesis using c(1) by (simp add: state_of_def)
    qed
  qed
qed

lemma step_inv: "book_inv b \<Longrightarrow> book_inv (step ev b)"
  by (cases ev) (simp_all add: flipPage_inv toggleCover_inv update_inv)

lemma run_inv: "book_inv b \<Longrightarrow> book_inv (run evs b)"
  unfolding run_def by (induction evs arbitrary: b) (simp_all add: step_inv)

lemma reachable_inv:
  assumes "newBook cfg = Inr b0" "b = run evs b0"
  shows "book_inv b"
  using assms run_inv [OF newBook_inv] by simp

lemma is_index_range:
  assumes "is_index xs i"
  shows "\<exists>x. i = Number x \<and> 0 \<le> x \<and> x \<le> real (length xs) - 1 \<and> x < real (length xs)"
proof -
  obtain x where x: "i = Number x" "x = of_int \<lfloor>x\<rfloor>" "0 \<le> x" "x < real (length xs)"
    using assms by (rule is_index_Number)
  then have "\<lfloor>x\<rfloor> < int (length xs)" by linarith
  then have "\<lfloor>x\<rfloor> \<le> int (length xs) - 1" by simp
  then have "of_int \<lfloor>x\<rfloor> \<le> real (length xs) - 1" by linarith
  then have "x \<le> real (length xs) - 1" using x(2) by simp
  then show ?thesis using x by simp
qed

subsection \<open>C1: the spread index stays in range\<close>

text \<open>
  Claim C1. For every construction that succeeds and every sequence of \<^verbatim>\<open>flipPage\<close>,
  \<^verbatim>\<open>toggleCover\<close> and \<^verbatim>\<open>update\<close> calls (with any arguments, \<^verbatim>\<open>NaN\<close> and the infinities
  included, at any times, and also across calls that throw), the current spread index
  is a finite number, at least 0 and at most \<open>spreadCount - 1\<close>, hence below the number
  of spreads.
\<close>

theorem spreadIndex_always_in_range:
  assumes "newBook cfg = Inr b"
  shows "\<exists>i. spreadIndex (run evs b) = Number i \<and> 0 \<le> i \<and>
           i \<le> real (length (spreads (run evs b))) - 1 \<and>
           i < real (length (spreads (run evs b)))"
proof -
  have "book_inv (run evs b)" using run_inv [OF newBook_inv [OF assms]] .
  then have "is_index (spreads (run evs b)) (spreadIndex (run evs b))"
    by (simp add: book_inv_def)
  then show ?thesis by (rule is_index_range)
qed

theorem spreadIndex_always_in_range_witness:
  "newBook example_cfg = Inr example_book \<and>
   (\<exists>i. spreadIndex (run [FlipPage 0 (Number 1), Update 2, ToggleCover 3, FlipPage 4 NaN,
            FlipPage 5 (Number 1)] example_book) = Number i \<and> 0 \<le> i \<and>
         i \<le> real (length (spreads (run [FlipPage 0 (Number 1), Update 2, ToggleCover 3,
            FlipPage 4 NaN, FlipPage 5 (Number 1)] example_book))) - 1 \<and>
         i < real (length (spreads (run [FlipPage 0 (Number 1), Update 2, ToggleCover 3,
            FlipPage 4 NaN, FlipPage 5 (Number 1)] example_book))))"
  using spreadIndex_always_in_range [OF example_book_constructed,
      of "[FlipPage 0 (Number 1), Update 2, ToggleCover 3, FlipPage 4 NaN, FlipPage 5 (Number 1)]"]
    example_book_constructed
  by simp

subsection \<open>The completing update\<close>

lemma flipPage_accepted:
  assumes "flipPage now d b = Inr c" "\<not> active (flip b)" "active (flip c)"
  shows "c_open (cover b) \<and> \<not> c_anim (cover b) \<and>
         is_index (spreads b) (js_add (spreadIndex b) d)"
proof -
  have g: "c_open (cover b) \<and> \<not> c_anim (cover b) \<and>
      \<not> js_lt (js_add (spreadIndex b) d) (Number 0) \<and>
      \<not> js_ge (js_add (spreadIndex b) d) (Number (real (length (spreads b))))"
  proof (rule ccontr)
    assume "\<not> ?thesis"
    then have "flipPage now d b = Inr b" by (intro flipPage_rejected) auto
    then show False using assms by simp
  qed
  have "is_index (spreads b) (js_add (spreadIndex b) d)"
  proof (rule ccontr)
    assume "\<not> ?thesis"
    then show False using flipPage_throws [of b d now] g assms by simp
  qed
  then show ?thesis using g by simp
qed

lemma update_completes:
  assumes inv: "book_inv b"
    and a: "active (flip b)" "pivot (flip b) = Some p"
    and s: "0 < speed_flip b" "speed_flip b \<le> now - t0 (flip b)"
  shows "\<exists>b2 page um op q.
           update now b = endFlip b2 \<and> b2 = flip_frame (easeInOut 1) p (update_cover now b) \<and>
           flip b2 = flip b \<and> spreadIndex b2 = spreadIndex b \<and> children b2 = children b \<and>
           turning p page um op q b2 \<and>
           is_index (spreads b2) (js_add (spreadIndex b2) (dir (flip b2))) \<and>
           page \<noteq> um \<and> page \<noteq> op \<and> um \<noteq> op \<and>
           (p, page, um, op) = (if dir (flip b) = Number 1 then (PivotR, RightPage, UnderRight, LeftPage)
              else (PivotL, LeftPage, UnderLeft, RightPage))"
proof -
  define b1 where "b1 = update_cover now b"
  have b1: "flip b1 = flip b" "speed_flip b1 = speed_flip b" "spreadIndex b1 = spreadIndex b"
    "children b1 = children b" "book_inv b1"
    using update_cover_frame [of now b] update_cover_children [of now b] update_cover_inv [OF inv]
    by (simp_all add: b1_def)
  have "1 \<le> (now - t0 (flip b)) / speed_flip b" using s by simp
  then have u: "min 1 ((now - t0 (flip b)) / speed_flip b) = 1" by simp
  define b2 where "b2 = flip_frame (easeInOut 1) p b1"
  have e: "update now b = endFlip b2"
    using a u by (simp add: update_def update_flip_def Let_def b1 b1_def [symmetric] b2_def)
  have b2: "flip b2 = flip b" "spreadIndex b2 = spreadIndex b" "children b2 = children b"
    "book_inv b2"
    using flip_frame_frame [of "easeInOut 1" p b1] flip_frame_inv [OF b1(5)]
    by (simp_all add: b2_def flip_frame_flip flip_frame_children b1)
  have i: "is_index (spreads b2) (js_add (spreadIndex b2) (dir (flip b2)))"
    and t: "if dir (flip b) = Number 1 then turning PivotR RightPage UnderRight LeftPage PivotL b2
           else turning PivotL LeftPage UnderLeft RightPage PivotR b2"
    using b2(4) a(2) by (simp_all add: book_inv_def b2)
  show ?thesis
  proof (cases "dir (flip b) = Number 1")
    case True
    then have t1: "turning PivotR RightPage UnderRight LeftPage PivotL b2" using t by simp
    then have "p = PivotR" using a(2) b2(1) by (simp add: turning_def)
    then show ?thesis using e b2 i t1 True b2_def b1_def by auto
  next
    case False
    then have t1: "turning PivotL LeftPage UnderLeft RightPage PivotR b2" using t by simp
    then have "p = PivotL" using a(2) b2(1) by (simp add: turning_def)
    then show ?thesis using e b2 i t1 False b2_def b1_def by auto
  qed
qed

lemma example_book_inv: "book_inv example_book"
  using example_book_constructed by (rule newBook_inv)

lemma example_turn:
  "\<exists>c. flipPage 0 (Number 1) example_book = Inr c \<and>
       run [FlipPage 0 (Number 1)] example_book = c \<and>
       turning PivotR RightPage UnderRight LeftPage PivotL c \<and>
       active (flip c) \<and> dir (flip c) = Number 1 \<and> t0 (flip c) = 0 \<and>
       spreadIndex c = Number 0 \<and> speed_flip c = 12 / 10"
proof -
  have i: "is_index (spreads example_book) (js_add (spreadIndex example_book) (Number 1))"
    by (simp add: example_book_fields example_spreads_def is_index_def)
  obtain c where c: "flipPage 0 (Number 1) example_book = Inr c"
    "turning PivotR RightPage UnderRight LeftPage PivotL c"
    "active (flip c)" "dir (flip c) = Number 1" "t0 (flip c) = 0"
    "spreadIndex c = spreadIndex example_book"
    using flipPage_forward [OF example_book_inv _ _ _ i, of 0]
    by (auto simp: example_book_fields)
  have "speed_flip c = 12 / 10"
    using flipPage_frame [of 0 "Number 1" example_book] c(1)
    by (simp add: state_of_def example_book_fields)
  then show ?thesis using c by (simp add: run_def state_of_def example_book_fields)
qed

lemma update_running_result:
  assumes "active (flip b)" "pivot (flip b) = Some p"
    "(now - t0 (flip b)) / speed_flip b < 1"
  shows "update now b =
     Inr (flip_frame (easeInOut (min 1 ((now - t0 (flip b)) / speed_flip b))) p
            (update_cover now b))"
proof -
  have "\<not> 1 \<le> min 1 ((now - t0 (flip b)) / speed_flip b)" using assms(3) by simp
  then show ?thesis
    using assms(1,2) update_cover_frame [of now b]
    by (simp add: update_def update_flip_def Let_def)
qed

lemma update_no_pivot:
  assumes "pivot (flip b) = None"
  shows "update now b = Inr (update_cover now b)"
  using assms update_cover_frame [of now b] by (simp add: update_def update_flip_def)

lemma example_book_scene:
  "visible example_book = (\<lambda>m. m = LeftPage \<or> m = RightPage)" "rotY example_book = (\<lambda>_. 0)"
  "flip example_book = \<lparr>active = False, dir = Number 0, t0 = 0, pivot = None, hidden = None,
      frontMesh = None, backMesh = None, under = None, other = None, otherWasVisible = True\<rparr>"
  by (simp_all add: example_book_def newBook_def validateConfig_def example_cfg_def
        example_spreads_def initial_book_def setSpread_def Let_def clamp_def element_at_def
        is_index_def)

lemma stuck_book_fields:
  "flipPage 0 (Number (1 / 2)) example_book = Inl (TypeError, stuck_book)"
  "flip stuck_book = \<lparr>active = True, dir = Number (1 / 2), t0 = 0, pivot = None, hidden = None,
      frontMesh = None, backMesh = None, under = None, other = Some RightPage,
      otherWasVisible = True\<rparr>"
  "visible stuck_book = (\<lambda>m. m = LeftPage \<or> m = RightPage \<or> m = UnderLeft)"
  "rotY stuck_book = (\<lambda>_. 0)" "spreadIndex stuck_book = Number 0"
  "speed_flip stuck_book = 12 / 10" "spreads stuck_book = example_spreads"
proof -
  have n: "\<not> is_index (spreads example_book) (js_add (spreadIndex example_book) (Number (1 / 2)))"
    by (simp add: example_book_fields is_index_def)
  have e: "flipPage 0 (Number (1 / 2)) example_book =
     Inl (TypeError,
          example_book\<lparr>flip := (flip example_book)\<lparr>active := True, dir := Number (1 / 2), t0 := 0,
                 other := Some RightPage, otherWasVisible := visible example_book RightPage\<rparr>,
            visible := (visible example_book)(UnderLeft := True)\<rparr>)"
    using flipPage_throws [of example_book "Number (1 / 2)" 0] n
    by (simp add: example_book_fields example_spreads_def)
  then have s: "stuck_book =
      example_book\<lparr>flip := (flip example_book)\<lparr>active := True, dir := Number (1 / 2), t0 := 0,
                 other := Some RightPage, otherWasVisible := visible example_book RightPage\<rparr>,
            visible := (visible example_book)(UnderLeft := True)\<rparr>"
    by (simp add: stuck_book_def run_def state_of_def)
  show "flipPage 0 (Number (1 / 2)) example_book = Inl (TypeError, stuck_book)"
    using e s by simp
  show "flip stuck_book = \<lparr>active = True, dir = Number (1 / 2), t0 = 0, pivot = None,
      hidden = None, frontMesh = None, backMesh = None, under = None, other = Some RightPage,
      otherWasVisible = True\<rparr>"
    by (simp add: s example_book_scene)
  show "visible stuck_book = (\<lambda>m. m = LeftPage \<or> m = RightPage \<or> m = UnderLeft)"
    by (auto simp: s example_book_scene fun_eq_iff)
  show "rotY stuck_book = (\<lambda>_. 0)" "spreadIndex stuck_book = Number 0"
    "speed_flip stuck_book = 12 / 10" "spreads stuck_book = example_spreads"
    by (simp_all add: s example_book_scene example_book_fields)
qed

lemma negative_book_constructed: "newBook negative_cfg = Inr negative_book"
  by (simp add: negative_book_def negative_cfg_def newBook_def validateConfig_def example_cfg_def
        example_spreads_def initial_book_def setSpread_def Let_def clamp_def element_at_def
        is_index_def)

lemma negative_book_fields:
  "spreadIndex negative_book = Number 0" "spreads negative_book = example_spreads"
  "cover negative_book = \<lparr>c_open = True, c_t0 = 0, c_anim = False\<rparr>"
  "speed_flip negative_book = - 1" "active (flip negative_book) = False"
  "visible negative_book LeftPage"
  by (simp_all add: negative_book_def negative_cfg_def newBook_def validateConfig_def
        example_cfg_def example_spreads_def initial_book_def setSpread_def Let_def clamp_def
        element_at_def is_index_def)

lemma negative_turn_fields:
  "flipPage 0 (Number 1) negative_book = Inr negative_turn"
  "turning PivotR RightPage UnderRight LeftPage PivotL negative_turn"
  "active (flip negative_turn)" "dir (flip negative_turn) = Number 1"
  "t0 (flip negative_turn) = 0" "spreadIndex negative_turn = Number 0"
  "speed_flip negative_turn = - 1" "otherWasVisible (flip negative_turn)"
  "book_inv negative_turn"
proof -
  have inv: "book_inv negative_book"
    using negative_book_constructed by (rule newBook_inv)
  have i: "is_index (spreads negative_book) (js_add (spreadIndex negative_book) (Number 1))"
    by (simp add: negative_book_fields example_spreads_def is_index_def)
  obtain c where c: "flipPage 0 (Number 1) negative_book = Inr c"
    "turning PivotR RightPage UnderRight LeftPage PivotL c"
    "active (flip c)" "dir (flip c) = Number 1" "t0 (flip c) = 0"
    "spreadIndex c = spreadIndex negative_book"
    "otherWasVisible (flip c) = visible negative_book LeftPage"
    using flipPage_forward [OF inv _ _ _ i, of 0]
    by (auto simp: negative_book_fields)
  have e: "negative_turn = c" by (simp add: negative_turn_def run_def c(1) state_of_def)
  have "speed_flip c = - 1"
    using flipPage_frame [of 0 "Number 1" negative_book] c(1)
    by (simp add: state_of_def negative_book_fields)
  moreover have "book_inv c"
    using flipPage_inv [OF inv, of 0 "Number 1"] c(1) by (simp add: state_of_def)
  ultimately show "flipPage 0 (Number 1) negative_book = Inr negative_turn"
    "turning PivotR RightPage UnderRight LeftPage PivotL negative_turn"
    "active (flip negative_turn)" "dir (flip negative_turn) = Number 1"
    "t0 (flip negative_turn) = 0" "spreadIndex negative_turn = Number 0"
    "speed_flip negative_turn = - 1" "otherWasVisible (flip negative_turn)"
    "book_inv negative_turn"
    using c by (simp_all add: e negative_book_fields)
qed

subsection \<open>C3: what the completing \<^verbatim>\<open>update\<close> leaves behind\<close>

text \<open>
  Claim C3 says that an \<^verbatim>\<open>update\<close> made while a turn is active, once the elapsed time has
  reached the flip duration, completes the turn. Two evaluations show otherwise. In the
  example book \<^verbatim>\<open>flipPage(0.5)\<close> at time 0 throws after it has set \<^verbatim>\<open>flip.active\<close> and
  before it selects a hinge, so \<^verbatim>\<open>isFlipActive()\<close> is true; the flip duration is 1.2 s,
  and \<^verbatim>\<open>update\<close> at time 100 skips the turn (its guard asks for a hinge), leaving the turn
  active and the index at 0, not at 0.5. In the book configured with a flip duration of
  \<open>-1\<close>, \<^verbatim>\<open>flipPage(1)\<close> at time 0 starts a turn on the right hinge; at time 0.5 the
  elapsed time 0.5 is at least the duration, yet the progress is \<open>0.5 / -1 < 1\<close> and
  \<^verbatim>\<open>update\<close> leaves the turn active and the index at 0, not at 1.
\<close>

theorem turn_never_completes_counterexample:
  "newBook example_cfg = Inr example_book \<and>
   stuck_book = state_of (flipPage 0 (Number (1 / 2)) example_book) \<and>
   isFlipActive stuck_book \<and>
   speed_flip stuck_book \<le> 100 - t0 (flip stuck_book) \<and>
   js_add (spreadIndex stuck_book) (dir (flip stuck_book)) = Number (1 / 2) \<and>
   isFlipActive (state_of (update 100 stuck_book)) \<and>
   spreadIndex (state_of (update 100 stuck_book)) = Number 0 \<and>
   newBook negative_cfg = Inr negative_book \<and>
   negative_turn = state_of (flipPage 0 (Number 1) negative_book) \<and>
   isFlipActive negative_turn \<and> pivot (flip negative_turn) = Some PivotR \<and>
   speed_flip negative_turn = - 1 \<and>
   speed_flip negative_turn \<le> 1 / 2 - t0 (flip negative_turn) \<and>
   js_add (spreadIndex negative_turn) (dir (flip negative_turn)) = Number 1 \<and>
   isFlipActive (state_of (update (1 / 2) negative_turn)) \<and>
   spreadIndex (state_of (update (1 / 2) negative_turn)) = Number 0"
proof -
  have p: "pivot (flip stuck_book) = None" by (simp add: stuck_book_fields)
  have u: "flip (update_cover 100 stuck_book) = flip stuck_book"
    "spreadIndex (update_cover 100 stuck_book) = spreadIndex stuck_book"
    using update_cover_frame [of 100 stuck_book] by simp_all
  have s: "isFlipActive (state_of (update 100 stuck_book))"
    "spreadIndex (state_of (update 100 stuck_book)) = Number 0"
    by (simp_all add: update_no_pivot [OF p] state_of_def isFlipActive_def u stuck_book_fields)
  have "(1 / 2 - t0 (flip negative_turn)) / speed_flip negative_turn < 1"
    by (simp add: negative_turn_fields)
  then have n: "flip (state_of (update (1 / 2) negative_turn)) = flip negative_turn"
    "spreadIndex (state_of (update (1 / 2) negative_turn)) = spreadIndex negative_turn"
    using update_running [of "1 / 2" negative_turn] by simp_all
  have q: "pivot (flip negative_turn) = Some PivotR"
    using negative_turn_fields(2) by (simp add: turning_def)
  have e: "state_of (flipPage 0 (Number (1 / 2)) example_book) = stuck_book"
    "state_of (flipPage 0 (Number 1) negative_book) = negative_turn"
    by (simp_all add: stuck_book_fields(1) negative_turn_fields(1) state_of_def)
  show ?thesis
    using s q
    by (simp add: example_book_constructed negative_book_constructed e
        stuck_book_fields(2-) negative_turn_fields(2-) n isFlipActive_def)
qed

text \<open>
  Claim C3, amended to a turn that has its hinge selected (the \<^verbatim>\<open>flipPage\<close> that started it
  returned) and to a positive flip duration. Take any book reached from a successful
  construction by any sequence of calls, in which a turn is in progress (\<^verbatim>\<open>flip.active\<close>
  with a hinge selected, the guard of \<^verbatim>\<open>update\<close> itself) and the flip duration is
  positive. If \<^verbatim>\<open>update\<close> is called when at least the flip duration has elapsed since the
  start of the turn, it returns, and afterwards: the spread index is the earlier index
  plus the direction; neither transient surface is a child of the hinge any more (the
  hinge has no children and the flip state holds no surface); the reveal surface is
  hidden; the static page that was hidden for the turn is visible; and
  \<^verbatim>\<open>isFlipActive()\<close> is false.
\<close>

theorem turn_completes:
  assumes "newBook cfg = Inr b0" and "b = run evs b0"
    and "active (flip b)" and "pivot (flip b) = Some p"
    and "0 < speed_flip b" and "speed_flip b \<le> now - t0 (flip b)"
  shows "\<exists>c. update now b = Inr c \<and>
           spreadIndex c = js_add (spreadIndex b) (dir (flip b)) \<and>
           (case frontMesh (flip b) of None \<Rightarrow> False | Some f \<Rightarrow> f \<notin> set (children c p)) \<and>
           (case backMesh (flip b) of None \<Rightarrow> False | Some g \<Rightarrow> g \<notin> set (children c p)) \<and>
           children c p = [] \<and> frontMesh (flip c) = None \<and> backMesh (flip c) = None \<and>
           (case under (flip b) of None \<Rightarrow> False | Some u \<Rightarrow> \<not> visible c u) \<and>
           (case hidden (flip b) of None \<Rightarrow> False | Some h \<Rightarrow> visible c h) \<and>
           \<not> isFlipActive c"
proof -
  have inv: "book_inv b" using assms(1,2) by (rule reachable_inv)
  obtain b2 page um op q where b2: "update now b = endFlip b2" "flip b2 = flip b"
    "spreadIndex b2 = spreadIndex b" "turning p page um op q b2"
    "is_index (spreads b2) (js_add (spreadIndex b2) (dir (flip b2)))"
    "page \<noteq> um" "page \<noteq> op" "um \<noteq> op"
    using update_completes [OF inv assms(3-6)] by blast
  obtain c where c: "endFlip b2 = Inr c" "spreadIndex c = js_add (spreadIndex b2) (dir (flip b2))"
    "children c = (children b2)(p := [])"
    "visible c = (visible b2)(um := False, page := True, op := True)"
    "flip c = \<lparr>active = False, dir = Number 0, t0 = t0 (flip b2), pivot = None, hidden = None,
                     frontMesh = None, backMesh = None, under = None, other = None,
                     otherWasVisible = True\<rparr>"
    using endFlip_turning [OF b2(4,5,6,7,8)] by blast
  obtain f g where fg: "frontMesh (flip b) = Some f" "backMesh (flip b) = Some g"
    "under (flip b) = Some um" "hidden (flip b) = Some page"
    using b2(4) b2(2) by (auto simp: turning_def split: option.splits)
  show ?thesis
    using b2(6,7,8) by (intro exI [of _ c]) (simp add: b2(1,2,3) c fg isFlipActive_def)
qed

theorem turn_completes_witness:
  "newBook example_cfg = Inr example_book \<and>
   active (flip (run [FlipPage 0 (Number 1)] example_book)) \<and>
   pivot (flip (run [FlipPage 0 (Number 1)] example_book)) = Some PivotR \<and>
   0 < speed_flip (run [FlipPage 0 (Number 1)] example_book) \<and>
   speed_flip (run [FlipPage 0 (Number 1)] example_book)
     \<le> 2 - t0 (flip (run [FlipPage 0 (Number 1)] example_book)) \<and>
   (\<exists>c. update 2 (run [FlipPage 0 (Number 1)] example_book) = Inr c \<and>
        spreadIndex c = Number 1 \<and>
        children c PivotR = [] \<and> \<not> visible c UnderRight \<and> visible c RightPage \<and>
        \<not> isFlipActive c)"
proof -
  obtain c0 where c0: "run [FlipPage 0 (Number 1)] example_book = c0"
    "turning PivotR RightPage UnderRight LeftPage PivotL c0"
    "active (flip c0)" "dir (flip c0) = Number 1" "t0 (flip c0) = 0" "spreadIndex c0 = Number 0"
    "speed_flip c0 = 12 / 10"
    using example_turn by blast
  have p: "pivot (flip c0) = Some PivotR" "under (flip c0) = Some UnderRight"
    "hidden (flip c0) = Some RightPage"
    using c0(2) by (simp_all add: turning_def)
  show ?thesis
    using turn_completes [OF example_book_constructed refl, of "[FlipPage 0 (Number 1)]" PivotR 2]
      example_book_constructed
    by (simp add: c0 p) blast
qed

subsection \<open>C4: a rejected \<^verbatim>\<open>flipPage\<close> changes nothing\<close>

text \<open>
  Claim C4 says that for every direction a \<^verbatim>\<open>flipPage\<close> whose target
  \<open>currentIndex + direction\<close> is out of bounds is a silent no-op. For the direction \<^verbatim>\<open>NaN\<close>
  this is not so: in the example book (cover open, nothing in flight) the target \<^verbatim>\<open>NaN\<close>
  is not within \<open>0 \<le> target < spreadCount\<close>, but both tests of line 463 are false for
  \<^verbatim>\<open>NaN\<close>, so the call goes on, sets \<^verbatim>\<open>flip.active\<close>, shows the left reveal surface and
  then throws a \<^verbatim>\<open>TypeError\<close> when it reads \<^verbatim>\<open>spreads[NaN].left\<close>.
\<close>

theorem flipPage_NaN_counterexample:
  "newBook example_cfg = Inr example_book \<and>
   c_open (cover example_book) \<and> \<not> c_anim (cover example_book) \<and>
   \<not> isFlipActive example_book \<and> \<not> visible example_book UnderLeft \<and>
   \<not> in_bounds (js_add (spreadIndex example_book) NaN) (length (spreads example_book)) \<and>
   flipPage 0 NaN example_book = Inl (TypeError, state_of (flipPage 0 NaN example_book)) \<and>
   isFlipActive (state_of (flipPage 0 NaN example_book)) \<and>
   visible (state_of (flipPage 0 NaN example_book)) UnderLeft"
proof -
  have n: "\<not> is_index (spreads example_book) (js_add (spreadIndex example_book) NaN)"
    by (simp add: example_book_fields is_index_def)
  have e: "flipPage 0 NaN example_book =
     Inl (TypeError,
          example_book\<lparr>flip := (flip example_book)\<lparr>active := True, dir := NaN, t0 := 0,
                 other := Some RightPage, otherWasVisible := visible example_book RightPage\<rparr>,
            visible := (visible example_book)(UnderLeft := True)\<rparr>)"
    using flipPage_throws [of example_book NaN 0] n
    by (simp add: example_book_fields example_spreads_def)
  show ?thesis
    by (simp add: e state_of_def isFlipActive_def example_book_constructed example_book_fields
        example_book_scene in_bounds_def)
qed

text \<open>
  Claim C4, amended to exclude the direction \<^verbatim>\<open>NaN\<close> from the out-of-bounds case. In
  any reachable book, \<^verbatim>\<open>flipPage\<close> called with any direction while the cover is closed, or
  while a cover animation is in flight, or while a turn is already active, or called
  with a direction other than \<^verbatim>\<open>NaN\<close> when \<open>spreadIndex + d\<close> is not within
  \<open>0 \<le> target < spreadCount\<close>, returns normally and leaves the whole state as it was (so
  no transient surface is created either). In particular, after a call whose target is
  in bounds, made with the cover open and nothing in flight, the turn is active, it
  stays active over any \<^verbatim>\<open>update\<close> calls made before the flip duration has elapsed, and
  a second \<^verbatim>\<open>flipPage\<close>, with any direction, then changes nothing.
\<close>

theorem flipPage_rejected_is_noop:
  assumes "newBook cfg = Inr b0" and "b = run evs b0"
  shows "(\<not> c_open (cover b) \<or> c_anim (cover b) \<or> active (flip b) \<or>
      d \<noteq> NaN \<and> \<not> in_bounds (js_add (spreadIndex b) d) (length (spreads b))
      \<longrightarrow> flipPage now d b = Inr b) \<and>
   (c_open (cover b) \<and> \<not> c_anim (cover b) \<and> \<not> active (flip b) \<and>
      in_bounds (js_add (spreadIndex b) d) (length (spreads b)) \<and>
      0 < speed_flip b \<and> (\<forall>t\<in>set ts. t - now < speed_flip b)
      \<longrightarrow> (let b2 = run (map Update ts) (state_of (flipPage now d b))
           in isFlipActive b2 \<and> flipPage now2 d2 b2 = Inr b2))"
proof (intro conjI impI)
  have "book_inv b" using assms by (rule reachable_inv)
  then have "is_index (spreads b) (spreadIndex b)" by (simp add: book_inv_def)
  then obtain i where i: "spreadIndex b = Number i" by (rule is_index_Number)
  assume a: "\<not> c_open (cover b) \<or> c_anim (cover b) \<or> active (flip b) \<or>
      d \<noteq> NaN \<and> \<not> in_bounds (js_add (spreadIndex b) d) (length (spreads b))"
  have "js_lt (js_add (spreadIndex b) d) (Number 0) \<or>
      js_ge (js_add (spreadIndex b) d) (Number (real (length (spreads b))))"
    if "d \<noteq> NaN" "\<not> in_bounds (js_add (spreadIndex b) d) (length (spreads b))"
    using that by (cases d) (auto simp: i in_bounds_def)
  then show "flipPage now d b = Inr b" using a by (intro flipPage_rejected) blast
next
  assume a: "c_open (cover b) \<and> \<not> c_anim (cover b) \<and> \<not> active (flip b) \<and>
      in_bounds (js_add (spreadIndex b) d) (length (spreads b)) \<and>
      0 < speed_flip b \<and> (\<forall>t\<in>set ts. t - now < speed_flip b)"
  let ?b1 = "state_of (flipPage now d b)"
  have g: "\<not> js_lt (js_add (spreadIndex b) d) (Number 0)"
    "\<not> js_ge (js_add (spreadIndex b) d) (Number (real (length (spreads b))))"
    using a by (cases "js_add (spreadIndex b) d"; simp add: in_bounds_def)+
  have b1: "active (flip ?b1) \<and> t0 (flip ?b1) = now"
    using a g flipPage_active [of b d now] by simp
  have s1: "speed_flip ?b1 = speed_flip b" using flipPage_frame [of now d b] by simp
  have "flip (run (map Update ts) ?b1) = flip ?b1"
    using updates_running [of ?b1 ts] a b1 s1 by simp
  then have act: "active (flip (run (map Update ts) ?b1))" using b1 by simp
  then have "flipPage now2 d2 (run (map Update ts) ?b1) = Inr (run (map Update ts) ?b1)"
    by (simp add: flipPage_rejected)
  then show "let b2 = run (map Update ts) ?b1 in isFlipActive b2 \<and> flipPage now2 d2 b2 = Inr b2"
    using act by (simp add: isFlipActive_def Let_def)
qed

theorem flipPage_rejected_is_noop_witness:
  "newBook example_cfg = Inr example_book \<and>
   Number (- 1) \<noteq> NaN \<and>
   \<not> in_bounds (js_add (spreadIndex example_book) (Number (- 1)))
       (length (spreads example_book)) \<and>
   flipPage 0 (Number (- 1)) example_book = Inr example_book \<and>
   c_open (cover example_book) \<and> \<not> c_anim (cover example_book) \<and>
   \<not> active (flip example_book) \<and>
   in_bounds (js_add (spreadIndex example_book) (Number 1)) (length (spreads example_book)) \<and>
   0 < speed_flip example_book \<and>
   isFlipActive (run (map Update [1 / 2, 1]) (state_of (flipPage 0 (Number 1) example_book))) \<and>
   flipPage 1 (Number 1)
       (run (map Update [1 / 2, 1]) (state_of (flipPage 0 (Number 1) example_book)))
     = Inr (run (map Update [1 / 2, 1]) (state_of (flipPage 0 (Number 1) example_book)))"
proof -
  have r: "example_book = run [] example_book" by (simp add: run_def)
  show ?thesis
    using flipPage_rejected_is_noop [OF example_book_constructed r,
        where d = "Number (- 1)" and now = 0 and ts = "[]" and ?now2.0 = 0 and ?d2.0 = "Number 0"]
      flipPage_rejected_is_noop [OF example_book_constructed r,
        where d = "Number 1" and now = 0 and ts = "[1 / 2, 1]" and ?now2.0 = 1
          and ?d2.0 = "Number 1"]
      example_book_constructed
    by (simp add: example_book_fields example_spreads_def Let_def in_bounds_def)
qed

subsection \<open>Directions other than 1 and -1\<close>

lemma update_completes_index:
  assumes "book_inv b" "active (flip b)" "pivot (flip b) = Some p"
    "0 < speed_flip b" "speed_flip b \<le> now - t0 (flip b)"
  shows "\<exists>c. update now b = Inr c \<and> spreadIndex c = js_add (spreadIndex b) (dir (flip b)) \<and>
           \<not> active (flip c)"
proof -
  obtain b2 where b2: "update now b = endFlip b2"
    "b2 = flip_frame (easeInOut 1) p (update_cover now b)" "flip b2 = flip b"
    "spreadIndex b2 = spreadIndex b"
    using update_completes [OF assms] by blast
  have "book_inv b2"
    using b2(2) flip_frame_inv [OF update_cover_inv [OF assms(1)]] by simp
  then show ?thesis
    using endFlip_inv [of b2 p] assms(3) b2 by auto
qed

lemma is_index_add_int:
  assumes "is_index xs i" "x \<in> \<int>" "in_bounds (js_add i (Number x)) (length xs)"
  shows "is_index xs (js_add i (Number x))"
proof -
  obtain y where y: "i = Number y" "y = of_int \<lfloor>y\<rfloor>"
    using assms(1) by (rule is_index_Number)
  obtain z where z: "x = of_int z" using assms(2) by (auto elim: Ints_cases)
  have "y + x = of_int (\<lfloor>y\<rfloor> + z)" using y(2) z by simp
  then have "y + x = of_int \<lfloor>y + x\<rfloor>" by (metis floor_of_int)
  then show ?thesis using assms(3) by (simp add: is_index_def in_bounds_def y(1))
qed

subsection \<open>C10: \<^verbatim>\<open>flipPage\<close> with an arbitrary direction\<close>

text \<open>
  Claim C10 says that \<^verbatim>\<open>flipPage(dir)\<close> starts a turn for any number \<open>dir\<close> whose target
  \<open>spreadIndex + dir\<close> is in bounds. For a fraction this is not so: in the example book
  \<^verbatim>\<open>flipPage(0.5)\<close> passes every check, marks the turn active, and then throws a
  \<^verbatim>\<open>TypeError\<close> when it reads the texture of \<^verbatim>\<open>spreads[0.5]\<close>, before a hinge is
  selected; \<^verbatim>\<open>update\<close> then never animates or completes anything, the book stays
  active and the index stays 0.
\<close>

theorem flipPage_fraction_counterexample:
  "c_open (cover example_book) \<and> \<not> c_anim (cover example_book) \<and>
   \<not> active (flip example_book) \<and>
   in_bounds (js_add (spreadIndex example_book) (Number (1 / 2)))
     (length (spreads example_book)) \<and>
   flipPage 0 (Number (1 / 2)) example_book =
     Inl (TypeError, state_of (flipPage 0 (Number (1 / 2)) example_book)) \<and>
   pivot (flip (state_of (flipPage 0 (Number (1 / 2)) example_book))) = None \<and>
   update 100 (state_of (flipPage 0 (Number (1 / 2)) example_book)) =
     Inr (update_cover 100 (state_of (flipPage 0 (Number (1 / 2)) example_book))) \<and>
   isFlipActive (update_cover 100 (state_of (flipPage 0 (Number (1 / 2)) example_book))) \<and>
   spreadIndex (update_cover 100 (state_of (flipPage 0 (Number (1 / 2)) example_book)))
     = Number 0"
proof -
  have p: "pivot (flip stuck_book) = None" by (simp add: stuck_book_fields)
  have u: "flip (update_cover 100 stuck_book) = flip stuck_book"
    "spreadIndex (update_cover 100 stuck_book) = spreadIndex stuck_book"
    using update_cover_frame [of 100 stuck_book] by simp_all
  show ?thesis
    using update_no_pivot [OF p, of 100]
    by (simp add: stuck_book_fields state_of_def u isFlipActive_def example_book_fields
        example_spreads_def in_bounds_def)
qed

text \<open>
  Claim C10, amended to integer-valued directions. In a reachable book with the cover
  open, no cover animation in flight and no turn active, \<^verbatim>\<open>flipPage(d)\<close> for any integer
  \<open>d\<close> with \<open>0 \<le> spreadIndex + d < spreadCount\<close> returns with a turn active in direction
  \<open>d\<close> (also for \<open>d = 0\<close>); the turn uses the right hinge and right page exactly when
  \<open>d = 1\<close>, and the left hinge and left page for every other \<open>d\<close>; and the \<^verbatim>\<open>update\<close> that
  completes it (positive flip duration) leaves the index at \<open>spreadIndex + d\<close> with no
  turn active.
\<close>

theorem flipPage_any_integer_direction:
  assumes "newBook cfg = Inr b0" and "b = run evs b0"
    and "c_open (cover b)" and "\<not> c_anim (cover b)" and "\<not> active (flip b)"
    and "d \<in> \<int>"
    and "in_bounds (js_add (spreadIndex b) (Number d)) (length (spreads b))"
    and "0 < speed_flip b" and "speed_flip b \<le> now2 - now"
  shows "\<exists>c. flipPage now (Number d) b = Inr c \<and> isFlipActive c \<and>
           dir (flip c) = Number d \<and>
           pivot (flip c) = Some (if d = 1 then PivotR else PivotL) \<and>
           hidden (flip c) = Some (if d = 1 then RightPage else LeftPage) \<and>
           (\<exists>c2. update now2 c = Inr c2 \<and>
                 spreadIndex c2 = js_add (spreadIndex b) (Number d) \<and>
                 \<not> isFlipActive c2)"
proof -
  have inv: "book_inv b" using assms(1,2) by (rule reachable_inv)
  then have "is_index (spreads b) (spreadIndex b)" by (simp add: book_inv_def)
  then have i: "is_index (spreads b) (js_add (spreadIndex b) (Number d))"
    using assms(6,7) by (rule is_index_add_int)
  obtain c where c: "flipPage now (Number d) b = Inr c" "active (flip c)"
    "dir (flip c) = Number d"
    "t0 (flip c) = now" "spreadIndex c = spreadIndex b"
    "pivot (flip c) = Some (if d = 1 then PivotR else PivotL)"
    "hidden (flip c) = Some (if d = 1 then RightPage else LeftPage)"
  proof (cases "d = 1")
    case True
    then show ?thesis
      using flipPage_forward [OF inv assms(3,4,5), of now] i that
      by (auto simp: turning_def)
  next
    case False
    then have "Number d \<noteq> Number 1" by simp
    then show ?thesis
      using flipPage_backward [OF inv assms(3,4,5) _ i, of now] that False
      by (auto simp: turning_def)
  qed
  have inv': "book_inv c"
    using flipPage_inv [OF inv, of now "Number d"] c(1) by (simp add: state_of_def)
  have sf: "speed_flip c = speed_flip b"
    using flipPage_frame [of now "Number d" b] c(1) by (simp add: state_of_def)
  obtain c2 where c2: "update now2 c = Inr c2"
    "spreadIndex c2 = js_add (spreadIndex c) (dir (flip c))"
    "\<not> active (flip c2)"
    using update_completes_index [OF inv' c(2,6), of now2] assms(8,9) sf c(4) by auto
  show ?thesis
    using c c2 by (intro exI [of _ c]) (simp add: isFlipActive_def)
qed

theorem flipPage_any_integer_direction_witness:
  "newBook example_cfg = Inr example_book \<and>
   c_open (cover example_book) \<and> \<not> c_anim (cover example_book) \<and>
   \<not> active (flip example_book) \<and> (0::real) \<in> \<int> \<and>
   in_bounds (js_add (spreadIndex example_book) (Number 0)) (length (spreads example_book)) \<and>
   0 < speed_flip example_book \<and> speed_flip example_book \<le> 2 - 0 \<and>
   (\<exists>c. flipPage 0 (Number 0) example_book = Inr c \<and> isFlipActive c \<and>
        dir (flip c) = Number 0 \<and>
        pivot (flip c) = Some PivotL \<and> hidden (flip c) = Some LeftPage \<and>
        (\<exists>c2. update 2 c = Inr c2 \<and> spreadIndex c2 = Number 0 \<and> \<not> isFlipActive c2))"
proof -
  have "run [] example_book = example_book" by (simp add: run_def)
  then show ?thesis
    using flipPage_any_integer_direction [OF example_book_constructed,
        where b = example_book and evs = "[]" and d = 0 and now = 0 and ?now2.0 = 2]
      example_book_constructed
    by (simp add: example_book_fields example_spreads_def in_bounds_def)
qed

subsection \<open>C5: the opposite page at the end of a turn\<close>

text \<open>
  Driven through \<^verbatim>\<open>flipPage\<close>, \<^verbatim>\<open>toggleCover\<close> and \<^verbatim>\<open>update\<close> alone, a book has both static
  pages visible whenever no hinge is selected, so every accepted \<^verbatim>\<open>flipPage\<close> records the
  opposite page as visible. A recorded value "hidden" needs a page hidden from outside.
\<close>

lemma endFlip_pages:
  assumes "book_inv b" "pivot (flip b) = Some p"
  shows "pages_shown_at_rest (state_of (endFlip b))"
proof -
  have i: "is_index (spreads b) (js_add (spreadIndex b) (dir (flip b)))"
    and t: "if dir (flip b) = Number 1 then turning PivotR RightPage UnderRight LeftPage PivotL b
           else turning PivotL LeftPage UnderLeft RightPage PivotR b"
    using assms by (simp_all add: book_inv_def)
  show ?thesis
  proof (cases "dir (flip b) = Number 1")
    case True
    then have t1: "turning PivotR RightPage UnderRight LeftPage PivotL b" using t by simp
    obtain c where "endFlip b = Inr c"
      "visible c = (visible b)(UnderRight := False, RightPage := True, LeftPage := True)"
      using endFlip_turning [OF t1 i] by auto
    then show ?thesis by (simp add: pages_shown_at_rest_def state_of_def)
  next
    case False
    then have t1: "turning PivotL LeftPage UnderLeft RightPage PivotR b" using t by simp
    obtain c where "endFlip b = Inr c"
      "visible c = (visible b)(UnderLeft := False, LeftPage := True, RightPage := True)"
      using endFlip_turning [OF t1 i] by auto
    then show ?thesis by (simp add: pages_shown_at_rest_def state_of_def)
  qed
qed

lemma update_cover_pages:
  "visible (update_cover now b) LeftPage = visible b LeftPage \<and>
   visible (update_cover now b) RightPage = visible b RightPage"
  by (simp add: update_cover_def Let_def set_visible_def)

lemma update_pages:
  assumes "book_inv b" "pages_shown_at_rest b"
  shows "pages_shown_at_rest (state_of (update now b))"
proof -
  define b1 where "b1 = update_cover now b"
  have b1: "book_inv b1" "flip b1 = flip b" "pages_shown_at_rest b1"
    using update_cover_inv [OF assms(1), of now] update_cover_frame [of now b]
      update_cover_pages [of now b] assms(2)
    by (simp_all add: b1_def pages_shown_at_rest_def)
  show ?thesis
  proof (cases "pivot (flip b1)")
    case None
    then show ?thesis using b1(3) by (simp add: update_def update_flip_def state_of_def b1_def)
  next
    case (Some p)
    have f: "pivot (flip (flip_frame k p b1)) = Some p" "book_inv (flip_frame k p b1)" for k
      using Some b1(1) by (simp_all add: flip_frame_flip flip_frame_inv)
    have 1: "pages_shown_at_rest (flip_frame k p b1)" for k
      using f(1) by (simp add: pages_shown_at_rest_def)
    have 2: "pages_shown_at_rest (state_of (endFlip (flip_frame k p b1)))" for k
      using endFlip_pages [OF f(2) f(1)] .
    show ?thesis
      using Some b1(3) 1 2
      by (simp add: update_def update_flip_def Let_def b1_def [symmetric] state_of_def [of "Inr _"])
  qed
qed

lemma flipPage_pages:
  assumes "book_inv b" "pages_shown_at_rest b"
  shows "pages_shown_at_rest (state_of (flipPage now d b))"
proof (cases "c_open (cover b) \<and> \<not> c_anim (cover b) \<and> \<not> active (flip b) \<and>
    \<not> js_lt (js_add (spreadIndex b) d) (Number 0) \<and>
    \<not> js_ge (js_add (spreadIndex b) d) (Number (real (length (spreads b))))")
  case False
  then have "flipPage now d b = Inr b" by (intro flipPage_rejected) auto
  then show ?thesis using assms by (simp add: state_of_def)
next
  case g: True
  show ?thesis
  proof (cases "is_index (spreads b) (js_add (spreadIndex b) d)")
    case False
    have "pages_shown_at_rest
        (b\<lparr>flip := (flip b)\<lparr>active := True, dir := d, t0 := now,
                 other := Some (if d = Number 1 then LeftPage else RightPage),
                 otherWasVisible := visible b (if d = Number 1 then LeftPage else RightPage)\<rparr>,
            visible := (visible b)((if d = Number 1 then UnderRight else UnderLeft) := True)\<rparr>)"
      using assms(2) by (simp add: pages_shown_at_rest_def)
    then show ?thesis using flipPage_throws [of b d now] g False by (simp add: state_of_def)
  next
    case True
    have "\<exists>c p. flipPage now d b = Inr c \<and> pivot (flip c) = Some p"
    proof (cases "d = Number 1")
      case d1: True
      then show ?thesis
        using flipPage_forward [OF assms(1), of now] g True by (auto simp: turning_def)
    next
      case d1: False
      then show ?thesis
        using flipPage_backward [OF assms(1) _ _ _ d1 True, of now] g by (auto simp: turning_def)
    qed
    then show ?thesis by (auto simp: pages_shown_at_rest_def state_of_def)
  qed
qed

lemma step_pages:
  assumes "book_inv b" "pages_shown_at_rest b"
  shows "pages_shown_at_rest (step ev b)"
proof (cases ev)
  case (FlipPage now d)
  then show ?thesis using flipPage_pages [OF assms] by simp
next
  case (ToggleCover now)
  then show ?thesis using assms(2) by (simp add: pages_shown_at_rest_def toggleCover_def)
next
  case (Update now)
  then show ?thesis using update_pages [OF assms] by simp
qed

lemma run_pages:
  "book_inv b \<Longrightarrow> pages_shown_at_rest b \<Longrightarrow> pages_shown_at_rest (run evs b)"
  unfolding run_def
  by (induction evs arbitrary: b) (simp_all add: step_pages step_inv)

lemma newBook_pages:
  assumes "newBook cfg = Inr b"
  shows "pages_shown_at_rest b"
proof -
  have "visible b = visible (initial_book cfg)"
    using setSpread_returns [OF newBook_returns(4) [OF assms]] by blast
  then show ?thesis by (simp add: pages_shown_at_rest_def initial_book_def)
qed

lemma reachable_pages:
  assumes "newBook cfg = Inr b0" "b = run evs b0" "\<not> active (flip b)"
  shows "visible b LeftPage \<and> visible b RightPage"
proof -
  have inv: "book_inv b" using assms(1,2) by (rule reachable_inv)
  have "pages_shown_at_rest b"
    using run_pages [OF newBook_inv newBook_pages, OF assms(1) assms(1), of evs] assms(2) by simp
  moreover have "pivot (flip b) = None"
    using inv assms(3) by (cases "pivot (flip b)") (simp_all add: book_inv_def)
  ultimately show ?thesis by (simp add: pages_shown_at_rest_def)
qed

lemma reachable_turn_records_visible:
  assumes "newBook cfg = Inr b0" "b = run evs b0"
    and "flipPage now d b = Inr c" "\<not> active (flip b)" "active (flip c)"
  shows "otherWasVisible (flip c)"
proof -
  have inv: "book_inv b" using assms(1,2) by (rule reachable_inv)
  have v: "visible b LeftPage" "visible b RightPage"
    using reachable_pages [OF assms(1,2,4)] by simp_all
  have g: "c_open (cover b)" "\<not> c_anim (cover b)"
    "is_index (spreads b) (js_add (spreadIndex b) d)"
    using flipPage_accepted [OF assms(3,4,5)] by simp_all
  show ?thesis
  proof (cases "d = Number 1")
    case True
    then show ?thesis
      using flipPage_forward [OF inv g(1,2) assms(4), of now] g(3) assms(3) v by auto
  next
    case False
    then show ?thesis
      using flipPage_backward [OF inv g(1,2) assms(4) False g(3), of now] assms(3) v by auto
  qed
qed

lemma hidden_left_book_inv: "book_inv hidden_left_book"
  using example_book_inv book_inv_cong [of hidden_left_book example_book]
  by (simp add: hidden_left_book_def)

text \<open>
  Claim C5 says that the completed turn leaves the opposite static page with the
  visibility recorded when the turn started. \<^verbatim>\<open>cleanupFlipMeshes\<close> does restore the
  recorded value, but \<^verbatim>\<open>endFlip\<close> then sets the page visible unconditionally (line 670).
  Evaluation at a book whose left page the host has hidden: \<^verbatim>\<open>flipPage(1)\<close> records the
  left page as hidden, and the \<^verbatim>\<open>update\<close> that completes the turn leaves it visible.
\<close>

theorem other_page_forced_visible:
  "\<not> visible hidden_left_book LeftPage \<and>
   other (flip (state_of (flipPage 0 (Number 1) hidden_left_book))) = Some LeftPage \<and>
   \<not> otherWasVisible (flip (state_of (flipPage 0 (Number 1) hidden_left_book))) \<and>
   \<not> isFlipActive (state_of (update 2 (state_of (flipPage 0 (Number 1) hidden_left_book)))) \<and>
   visible (state_of (update 2 (state_of (flipPage 0 (Number 1) hidden_left_book)))) LeftPage"
proof -
  have f: "cover hidden_left_book = cover example_book" "flip hidden_left_book = flip example_book"
    "spreads hidden_left_book = spreads example_book"
    "spreadIndex hidden_left_book = spreadIndex example_book"
    "speed_flip hidden_left_book = speed_flip example_book"
    "\<not> visible hidden_left_book LeftPage"
    by (simp_all add: hidden_left_book_def)
  have i: "is_index (spreads hidden_left_book) (js_add (spreadIndex hidden_left_book) (Number 1))"
    by (simp add: f example_book_fields example_spreads_def is_index_def)
  obtain c where c: "flipPage 0 (Number 1) hidden_left_book = Inr c"
    "turning PivotR RightPage UnderRight LeftPage PivotL c"
    "active (flip c)" "t0 (flip c) = 0"
    "otherWasVisible (flip c) = visible hidden_left_book LeftPage"
    using flipPage_forward [OF hidden_left_book_inv _ _ _ i, of 0]
    by (auto simp: f example_book_fields)
  have inv: "book_inv c"
    using flipPage_inv [OF hidden_left_book_inv, of 0 "Number 1"] c(1) by (simp add: state_of_def)
  have sf: "speed_flip c = 12 / 10"
    using flipPage_frame [of 0 "Number 1" hidden_left_book] c(1)
    by (simp add: state_of_def f example_book_fields)
  have p: "pivot (flip c) = Some PivotR" "other (flip c) = Some LeftPage"
    using c(2) by (simp_all add: turning_def)
  obtain b2 page um op q where b2: "update 2 c = endFlip b2" "flip b2 = flip c"
    "turning PivotR page um op q b2" "is_index (spreads b2) (js_add (spreadIndex b2) (dir (flip b2)))"
    "page \<noteq> um" "page \<noteq> op" "um \<noteq> op"
    using update_completes [OF inv c(3) p(1), of 2] sf c(4) by auto
  have op: "op = LeftPage" using b2(2,3) p(2) by (simp add: turning_def)
  obtain c2 where c2: "endFlip b2 = Inr c2"
    "visible c2 = (visible b2)(um := False, page := True, op := True)"
    "flip c2 = \<lparr>active = False, dir = Number 0, t0 = t0 (flip b2), pivot = None, hidden = None,
                     frontMesh = None, backMesh = None, under = None, other = None,
                     otherWasVisible = True\<rparr>"
    using endFlip_turning [OF b2(3,4,5,6,7)] by blast
  show ?thesis
    using f(6) c(5) p(2) c2 op
    by (simp add: c(1) b2(1) state_of_def isFlipActive_def)
qed

theorem other_page_forced_visible_witness:
  "otherWasVisible (flip (state_of (flipPage 0 (Number 1) hidden_left_book))) \<noteq>
   visible (state_of (update 2 (state_of (flipPage 0 (Number 1) hidden_left_book)))) LeftPage"
  using other_page_forced_visible by simp

subsection \<open>C7: configuration errors at construction\<close>

text \<open>
  Claim C7, about the validation of the spread list (\<^verbatim>\<open>validateConfig\<close>, called by the
  constructor at line 161). Constructing a book with an empty spread list, or with a
  non-empty list in which some spread lacks its left or right texture handle, raises
  the configuration error of \<^verbatim>\<open>validateConfig\<close> and yields no book. For a non-empty list
  in which every spread has both handles, \<^verbatim>\<open>validateConfig\<close> returns without raising and
  the construction raises no configuration error.
\<close>

theorem construction_validates_spreads:
  "(cfg_spreads cfg = [] \<longrightarrow>
      newBook cfg = Inl (ConfigError ''spreads debe tener al menos 1 spread'')) \<and>
   (cfg_spreads cfg \<noteq> [] \<and> (\<exists>s\<in>set (cfg_spreads cfg). left s = None \<or> right s = None) \<longrightarrow>
      newBook cfg = Inl (ConfigError ''cada spread debe tener left y right'')) \<and>
   (cfg_spreads cfg \<noteq> [] \<and> (\<forall>s\<in>set (cfg_spreads cfg). left s \<noteq> None \<and> right s \<noteq> None) \<longrightarrow>
      validateConfig (cfg_spreads cfg) = None \<and>
      (\<forall>msg. newBook cfg \<noteq> Inl (ConfigError msg)))"
proof (intro conjI impI)
  assume "cfg_spreads cfg = []"
  then show "newBook cfg = Inl (ConfigError ''spreads debe tener al menos 1 spread'')"
    by (simp add: newBook_def validateConfig_def)
next
  assume "cfg_spreads cfg \<noteq> [] \<and> (\<exists>s\<in>set (cfg_spreads cfg). left s = None \<or> right s = None)"
  then have "cfg_spreads cfg \<noteq> []"
    "\<not> list_all (\<lambda>s. left s \<noteq> None \<and> right s \<noteq> None) (cfg_spreads cfg)"
    by (auto simp: list_all_iff)
  then show "newBook cfg = Inl (ConfigError ''cada spread debe tener left y right'')"
    by (simp add: newBook_def validateConfig_def)
next
  assume a: "cfg_spreads cfg \<noteq> [] \<and>
    (\<forall>s\<in>set (cfg_spreads cfg). left s \<noteq> None \<and> right s \<noteq> None)"
  then show v: "validateConfig (cfg_spreads cfg) = None"
    by (simp add: validateConfig_def list_all_iff)
  show "\<forall>msg. newBook cfg \<noteq> Inl (ConfigError msg)"
  proof
    fix msg
    have "setSpread i c \<noteq> Inl (ConfigError msg, c')" for i c c'
      by (simp add: setSpread_def Let_def split: option.splits)
    then show "newBook cfg \<noteq> Inl (ConfigError msg)"
      using v by (auto simp: newBook_def split: sum.splits)
  qed
qed

theorem construction_validates_spreads_witness:
  "cfg_spreads (example_cfg\<lparr>cfg_spreads := []\<rparr>) = [] \<and>
   newBook (example_cfg\<lparr>cfg_spreads := []\<rparr>) =
     Inl (ConfigError ''spreads debe tener al menos 1 spread'') \<and>
   newBook (example_cfg\<lparr>cfg_spreads := [\<lparr>left = Some (Texture 0), right = None\<rparr>]\<rparr>) =
     Inl (ConfigError ''cada spread debe tener left y right'') \<and>
   cfg_spreads example_cfg \<noteq> [] \<and>
   validateConfig (cfg_spreads example_cfg) = None \<and>
   newBook example_cfg \<noteq> Inl (ConfigError ''spreads debe tener al menos 1 spread'') \<and>
   newBook example_cfg \<noteq> Inl (ConfigError ''cada spread debe tener left y right'')"
  using construction_validates_spreads [of "example_cfg\<lparr>cfg_spreads := []\<rparr>"]
    construction_validates_spreads
      [of "example_cfg\<lparr>cfg_spreads := [\<lparr>left = Some (Texture 0), right = None\<rparr>]\<rparr>"]
    construction_validates_spreads [of example_cfg]
  by (simp add: example_cfg_def example_spreads_def)

subsection \<open>A frame of the turn animation\<close>

lemma flip_frame_rotY:
  "rotY (flip_frame k p b) p = (if dir (flip b) = Number 1 then - pi else pi) * k"
  by (simp add: flip_frame_def Let_def set_visible_def split: option.splits)

lemma flip_frame_other:
  "other (flip b) = Some m \<Longrightarrow>
   visible (flip_frame k p b) m = (if k \<le> 55 / 100 then otherWasVisible (flip b) else False)"
  by (simp add: flip_frame_def Let_def set_visible_def)

lemma progress_clamp:
  assumes "0 < d" "(s::real) \<le> now"
  shows "min 1 ((now - s) / d) = max 0 (min 1 ((now - s) / d))"
proof -
  have "0 \<le> (now - s) / d" using assms by simp
  then show ?thesis by simp
qed

lemma example_turn_other:
  "other (flip (run [FlipPage 0 (Number 1)] example_book)) = Some LeftPage \<and>
   otherWasVisible (flip (run [FlipPage 0 (Number 1)] example_book))"
proof -
  have i: "is_index (spreads example_book) (js_add (spreadIndex example_book) (Number 1))"
    by (simp add: example_book_fields example_spreads_def is_index_def)
  have v: "visible example_book LeftPage"
    by (simp add: example_book_scene)
  obtain c where c: "flipPage 0 (Number 1) example_book = Inr c"
    "turning PivotR RightPage UnderRight LeftPage PivotL c"
    "otherWasVisible (flip c) = visible example_book LeftPage"
    using flipPage_forward [OF example_book_inv _ _ _ i, of 0]
    by (auto simp: example_book_fields)
  show ?thesis using c v by (simp add: run_def state_of_def turning_def)
qed

subsection \<open>C6: hinge angle and opposite page during a turn\<close>

text \<open>
  Claim C6 says that during an active turn each \<^verbatim>\<open>update\<close> sets the hinge to \<open>\<plusminus>\<pi> \<cdot> k\<close>
  with \<open>k\<close> the eased, clamped progress, and hides the opposite static page once
  \<open>k > 0.55\<close>. Two evaluations show otherwise. After \<^verbatim>\<open>flipPage(0.5)\<close> in the example
  book the turn is active without a hinge (the call threw before selecting one); at
  time 0.9 the clamped progress is 0.75 and \<open>k = 15/16 > 0.55\<close>, yet \<^verbatim>\<open>update\<close> rotates no
  hinge and leaves the opposite (right) page visible. In the book with flip duration
  \<open>-1\<close>, after \<^verbatim>\<open>flipPage(1)\<close> at time 0 the \<^verbatim>\<open>update\<close> at time 0.5 computes the progress
  \<open>min(1, -0.5) = -0.5\<close> without a lower clamp and sets the right hinge to
  \<open>- \<pi> \<cdot> 4 \<cdot> (-0.5)\<^sup>3 = \<pi> / 2\<close>, where the clamped progress 0 gives the angle 0.
\<close>

theorem update_animation_counterexample:
  "newBook example_cfg = Inr example_book \<and>
   stuck_book = state_of (flipPage 0 (Number (1 / 2)) example_book) \<and>
   isFlipActive stuck_book \<and> other (flip stuck_book) = Some RightPage \<and>
   max 0 (min 1 ((9 / 10 - t0 (flip stuck_book)) / speed_flip stuck_book)) = 3 / 4 \<and>
   easeInOut (3 / 4) = 15 / 16 \<and>
   visible (state_of (update (9 / 10) stuck_book)) RightPage \<and>
   rotY (state_of (update (9 / 10) stuck_book)) PivotL = 0 \<and>
   rotY (state_of (update (9 / 10) stuck_book)) PivotR = 0 \<and>
   newBook negative_cfg = Inr negative_book \<and>
   negative_turn = state_of (flipPage 0 (Number 1) negative_book) \<and>
   isFlipActive negative_turn \<and> pivot (flip negative_turn) = Some PivotR \<and>
   dir (flip negative_turn) = Number 1 \<and>
   max 0 (min 1 ((1 / 2 - t0 (flip negative_turn)) / speed_flip negative_turn)) = 0 \<and>
   easeInOut 0 = 0 \<and>
   rotY (state_of (update (1 / 2) negative_turn)) PivotR = pi / 2"
proof -
  have p: "pivot (flip stuck_book) = None" by (simp add: stuck_book_fields)
  have v: "visible (update_cover (9 / 10) stuck_book) RightPage"
    using update_cover_pages [of "9 / 10" stuck_book] by (simp add: stuck_book_fields)
  have r: "rotY (update_cover (9 / 10) stuck_book) PivotL = 0"
    "rotY (update_cover (9 / 10) stuck_book) PivotR = 0"
    by (simp_all add: update_cover_def Let_def set_visible_def stuck_book_fields)
  have s: "visible (state_of (update (9 / 10) stuck_book)) RightPage"
    "rotY (state_of (update (9 / 10) stuck_book)) PivotL = 0"
    "rotY (state_of (update (9 / 10) stuck_book)) PivotR = 0"
    using v r by (simp_all add: update_no_pivot [OF p] state_of_def)
  have q: "pivot (flip negative_turn) = Some PivotR"
    using negative_turn_fields(2) by (simp add: turning_def)
  have "(1 / 2 - t0 (flip negative_turn)) / speed_flip negative_turn < 1"
    by (simp add: negative_turn_fields)
  then have "update (1 / 2) negative_turn =
     Inr (flip_frame (easeInOut (min 1 ((1 / 2 - t0 (flip negative_turn)) /
            speed_flip negative_turn))) PivotR (update_cover (1 / 2) negative_turn))"
    using update_running_result [OF negative_turn_fields(3) q] by simp
  then have n: "rotY (state_of (update (1 / 2) negative_turn)) PivotR = pi / 2"
    using update_cover_frame [of "1 / 2" negative_turn]
    by (simp add: state_of_def flip_frame_rotY negative_turn_fields easeInOut_def)
  have e: "state_of (flipPage 0 (Number (1 / 2)) example_book) = stuck_book"
    "state_of (flipPage 0 (Number 1) negative_book) = negative_turn"
    by (simp_all add: stuck_book_fields(1) negative_turn_fields(1) state_of_def)
  have k: "easeInOut (3 / 4) = 15 / 16" "easeInOut 0 = 0"
    by (simp_all add: easeInOut_def power3_eq_cube)
  show ?thesis
    using s n q k
    by (simp add: example_book_constructed negative_book_constructed e
        stuck_book_fields(2-) negative_turn_fields(2-) isFlipActive_def)
qed

text \<open>
  Claim C6, amended to a turn that has its hinge selected (the \<^verbatim>\<open>flipPage\<close> that started it
  returned) and to a positive flip duration. In any reachable book with such a turn in
  progress, an \<^verbatim>\<open>update\<close> at a time \<open>now\<close> not before the start of the turn (the clock of
  \<^verbatim>\<open>performance.now()\<close> never runs backwards) returns and leaves the hinge of the turn
  at the angle \<open>- \<pi> \<cdot> k\<close> for direction 1 and \<open>\<pi> \<cdot> k\<close> for any other direction, where
  \<open>u\<close> is \<open>(now - t0) / flipDuration\<close> clamped to \<open>[0, 1]\<close> and \<open>k\<close> is the cubic ease
  \<open>4 u\<^sup>3\<close> for \<open>u < 1/2\<close> and \<open>1 - (2 - 2 u)\<^sup>3 / 2\<close> otherwise. While \<open>u\<close> is below 1 the
  turn stays active and the opposite static page is shown as recorded at the start of
  the turn if \<open>k \<le> 0.55\<close>, and hidden if \<open>k > 0.55\<close>.
\<close>

theorem update_animates_turn:
  assumes "newBook cfg = Inr b0" and "b = run evs b0"
    and "active (flip b)" and "pivot (flip b) = Some p"
    and "0 < speed_flip b" and "t0 (flip b) \<le> now"
  shows "let u = max 0 (min 1 ((now - t0 (flip b)) / speed_flip b));
             k = (if u < 1 / 2 then 4 * u * u * u else 1 - (- 2 * u + 2) ^ 3 / 2)
         in \<exists>c. update now b = Inr c \<and>
              rotY c p = (if dir (flip b) = Number 1 then - pi else pi) * k \<and>
              (u < 1 \<longrightarrow>
                 isFlipActive c \<and>
                 (case other (flip b) of
                    None \<Rightarrow> False
                  | Some m \<Rightarrow>
                      visible c m =
                        (if k \<le> 55 / 100 then otherWasVisible (flip b) else False)))"
proof -
  have inv: "book_inv b" using assms(1,2) by (rule reachable_inv)
  define u where "u = max 0 (min 1 ((now - t0 (flip b)) / speed_flip b))"
  define k where "k = (if u < 1 / 2 then 4 * u * u * u else 1 - (- 2 * u + 2) ^ 3 / 2)"
  have u: "min 1 ((now - t0 (flip b)) / speed_flip b) = u"
    using progress_clamp [OF assms(5,6)] by (simp add: u_def)
  have k: "easeInOut u = k" by (simp add: easeInOut_def k_def)
  define b1 where "b1 = update_cover now b"
  have b1: "flip b1 = flip b" "speed_flip b1 = speed_flip b"
    using update_cover_frame [of now b] by (simp_all add: b1_def)
  have "\<exists>c. update now b = Inr c \<and>
              rotY c p = (if dir (flip b) = Number 1 then - pi else pi) * k \<and>
              (u < 1 \<longrightarrow>
                 isFlipActive c \<and>
                 (case other (flip b) of
                    None \<Rightarrow> False
                  | Some m \<Rightarrow>
                      visible c m =
                        (if k \<le> 55 / 100 then otherWasVisible (flip b) else False)))"
  proof (cases "u < 1")
    case True
    have e: "update now b = Inr (flip_frame k p b1)"
      using assms(3,4) True u k
      by (simp add: update_def update_flip_def Let_def b1 b1_def [symmetric])
    obtain m where m: "other (flip b) = Some m"
      using inv assms(4) by (auto simp: book_inv_def turning_def split: if_splits)
    show ?thesis
      using True assms(3) flip_frame_rotY [of k p b1] flip_frame_other [of b1 m k p]
      by (simp add: e m b1 isFlipActive_def flip_frame_flip)
  next
    case False
    then have u1: "u = 1" by (simp add: u_def)
    then have "1 \<le> (now - t0 (flip b)) / speed_flip b" using u by linarith
    then have s: "speed_flip b \<le> now - t0 (flip b)" using assms(5) by (simp add: pos_le_divide_eq)
    obtain b2 page um op q where b2: "update now b = endFlip b2"
      "b2 = flip_frame (easeInOut 1) p (update_cover now b)" "flip b2 = flip b"
      "turning p page um op q b2"
      "is_index (spreads b2) (js_add (spreadIndex b2) (dir (flip b2)))"
      "page \<noteq> um" "page \<noteq> op" "um \<noteq> op"
      using update_completes [OF inv assms(3,4,5) s] by blast
    obtain c where c: "endFlip b2 = Inr c" "rotY c = rotY b2"
      using endFlip_turning [OF b2(4,5,6,7,8)] by blast
    have "rotY c p = (if dir (flip b) = Number 1 then - pi else pi) * easeInOut 1"
      using flip_frame_rotY [of "easeInOut 1" p "update_cover now b"] update_cover_frame [of now b]
      by (simp add: c b2(2))
    then show ?thesis
      using False k by (simp add: b2(1) c(1) u1)
  qed
  then show ?thesis unfolding Let_def k_def u_def .
qed

theorem update_animates_turn_witness:
  "newBook example_cfg = Inr example_book \<and>
   active (flip (run [FlipPage 0 (Number 1)] example_book)) \<and>
   pivot (flip (run [FlipPage 0 (Number 1)] example_book)) = Some PivotR \<and>
   0 < speed_flip (run [FlipPage 0 (Number 1)] example_book) \<and>
   t0 (flip (run [FlipPage 0 (Number 1)] example_book)) \<le> 3 / 10 \<and>
   t0 (flip (run [FlipPage 0 (Number 1)] example_book)) \<le> 9 / 10 \<and>
   (\<exists>c. update (3 / 10) (run [FlipPage 0 (Number 1)] example_book) = Inr c \<and>
        rotY c PivotR = - pi * (1 / 16) \<and> isFlipActive c \<and> visible c LeftPage) \<and>
   (\<exists>c. update (9 / 10) (run [FlipPage 0 (Number 1)] example_book) = Inr c \<and>
        rotY c PivotR = - pi * (15 / 16) \<and> isFlipActive c \<and> \<not> visible c LeftPage)"
proof -
  obtain c0 where c0: "run [FlipPage 0 (Number 1)] example_book = c0"
    "turning PivotR RightPage UnderRight LeftPage PivotL c0"
    "active (flip c0)" "dir (flip c0) = Number 1" "t0 (flip c0) = 0" "spreadIndex c0 = Number 0"
    "speed_flip c0 = 12 / 10"
    using example_turn by blast
  have p: "pivot (flip c0) = Some PivotR" "other (flip c0) = Some LeftPage"
    "otherWasVisible (flip c0)"
    using c0(2) example_turn_other by (simp_all add: turning_def c0(1))
  have k: "((3::real) / 10) / (12 / 10) = 1 / 4" "((9::real) / 10) / (12 / 10) = 3 / 4"
    by simp_all
  show ?thesis
    using update_animates_turn [OF example_book_constructed refl,
        of "[FlipPage 0 (Number 1)]" PivotR "3 / 10"]
      update_animates_turn [OF example_book_constructed refl,
        of "[FlipPage 0 (Number 1)]" PivotR "9 / 10"]
      example_book_constructed
    by (simp add: c0 p k Let_def power3_eq_cube)
qed

subsection \<open>The reveal surface\<close>







subsection \<open>C2: the reveal surface stays shown throughout a turn\<close>



end
